theory Spec2Isabelle
  imports Complex_Main "HOL-Library.Log_Nat"
begin

section \<open>JavaScript numbers\<close>

text \<open>
  The bot computes with JavaScript numbers. A number is NaN, one of the two infinities or
  a finite value. Finite values are modelled by reals. In the bet tracker, the bid
  estimator and the scheduler loop, arithmetic on two finite values is exact (no
  rounding, no overflow, no signed zero). Comparisons, \<open>Math.max\<close>,
  \<open>Math.min\<close> and sorting only compare and copy values, so they behave on these
  numbers exactly as on doubles. The arithmetic of the start of \<open>main\<close> and of the
  wallet helpers is rounded to doubles, as the section on rounding describes.
\<close>

datatype number = NaN | NegInfinity | Fin real | PosInfinity

text \<open>\<open>a < b\<close>; every comparison with NaN is false.\<close>

fun js_lt :: "number \<Rightarrow> number \<Rightarrow> bool" where
  "js_lt (Fin a) (Fin b) = (a < b)"
| "js_lt (Fin a) PosInfinity = True"
| "js_lt NegInfinity (Fin b) = True"
| "js_lt NegInfinity PosInfinity = True"
| "js_lt _ _ = False"

definition js_gt :: "number \<Rightarrow> number \<Rightarrow> bool" where
  "js_gt a b = js_lt b a"

text \<open>\<open>a <= b\<close> is \<open>a < b || a == b\<close>; false when an operand is NaN.\<close>

definition js_le :: "number \<Rightarrow> number \<Rightarrow> bool" where
  "js_le a b = (a \<noteq> NaN \<and> b \<noteq> NaN \<and> (js_lt a b \<or> a = b))"

definition js_ge :: "number \<Rightarrow> number \<Rightarrow> bool" where
  "js_ge a b = js_le b a"

definition isNaN :: "number \<Rightarrow> bool" where
  "isNaN a = (a = NaN)"

fun js_neg :: "number \<Rightarrow> number" where
  "js_neg NaN = NaN"
| "js_neg NegInfinity = PosInfinity"
| "js_neg (Fin a) = Fin (- a)"
| "js_neg PosInfinity = NegInfinity"

fun js_add :: "number \<Rightarrow> number \<Rightarrow> number" where
  "js_add (Fin a) (Fin b) = Fin (a + b)"
| "js_add NaN _ = NaN"
| "js_add _ NaN = NaN"
| "js_add PosInfinity NegInfinity = NaN"
| "js_add NegInfinity PosInfinity = NaN"
| "js_add PosInfinity _ = PosInfinity"
| "js_add _ PosInfinity = PosInfinity"
| "js_add NegInfinity _ = NegInfinity"
| "js_add _ NegInfinity = NegInfinity"

definition js_sub :: "number \<Rightarrow> number \<Rightarrow> number" where
  "js_sub a b = js_add a (js_neg b)"

text \<open>The sign of a number that is not NaN, as \<open>-1\<close>, \<open>0\<close> or \<open>1\<close>.\<close>

fun js_sign :: "number \<Rightarrow> int" where
  "js_sign NaN = 0"
| "js_sign NegInfinity = - 1"
| "js_sign (Fin a) = (if a < 0 then - 1 else if a = 0 then 0 else 1)"
| "js_sign PosInfinity = 1"

fun js_mul :: "number \<Rightarrow> number \<Rightarrow> number" where
  "js_mul (Fin a) (Fin b) = Fin (a * b)"
| "js_mul NaN _ = NaN"
| "js_mul _ NaN = NaN"
| "js_mul a b =
     (if js_sign a * js_sign b = 0 then NaN
      else if js_sign a * js_sign b > 0 then PosInfinity else NegInfinity)"

text \<open>
  Division. A finite value divided by zero gives an infinity of the dividend's sign
  (the divisor is taken as \<open>+0\<close>), and \<open>0 / 0\<close> is NaN.
\<close>

fun js_div :: "number \<Rightarrow> number \<Rightarrow> number" where
  "js_div (Fin a) (Fin b) =
     (if b \<noteq> 0 then Fin (a / b)
      else if a = 0 then NaN else if a > 0 then PosInfinity else NegInfinity)"
| "js_div NaN _ = NaN"
| "js_div _ NaN = NaN"
| "js_div (Fin a) _ = Fin 0"
| "js_div PosInfinity (Fin b) = (if b < 0 then NegInfinity else PosInfinity)"
| "js_div NegInfinity (Fin b) = (if b < 0 then PosInfinity else NegInfinity)"
| "js_div _ _ = NaN"

text \<open>\<open>Math.max(a, b)\<close> and \<open>Math.min(a, b)\<close>: NaN when an argument is NaN.\<close>

definition Math_max :: "number \<Rightarrow> number \<Rightarrow> number" where
  "Math_max a b = (if a = NaN \<or> b = NaN then NaN else if js_lt a b then b else a)"

definition Math_min :: "number \<Rightarrow> number \<Rightarrow> number" where
  "Math_min a b = (if a = NaN \<or> b = NaN then NaN else if js_lt b a then b else a)"

text \<open>\<open>Math.max(...xs)\<close>: \<open>-Infinity\<close> for no argument.\<close>

definition Math_max_list :: "number list \<Rightarrow> number" where
  "Math_max_list xs = foldl Math_max NegInfinity xs"

text \<open>\<open>Math.floor(a)\<close>.\<close>

fun Math_floor :: "number \<Rightarrow> number" where
  "Math_floor (Fin a) = Fin (of_int \<lfloor>a\<rfloor>)"
| "Math_floor a = a"

text \<open>\<open>Number(n)\<close> of a non-negative bigint.\<close>

definition Number :: "nat \<Rightarrow> number" where
  "Number n = Fin (real n)"

text \<open>
  \<open>xs.sort(cmp)\<close>. The comparator's result \<open>v\<close> orders \<open>a\<close> after \<open>b\<close> when
  \<open>v > 0\<close>; a result of \<open>0\<close> or NaN leaves the two in their order (the sort is
  stable). For a comparator that is consistent on the elements, every conforming sort gives
  the list that this stable insertion sort gives.
\<close>

fun js_insert :: "(number \<Rightarrow> number \<Rightarrow> number) \<Rightarrow> number \<Rightarrow> number list \<Rightarrow> number list" where
  "js_insert cmp x [] = [x]"
| "js_insert cmp x (y # ys) =
     (if js_gt (cmp x y) (Fin 0) then y # js_insert cmp x ys else x # y # ys)"

definition js_sort :: "(number \<Rightarrow> number \<Rightarrow> number) \<Rightarrow> number list \<Rightarrow> number list" where
  "js_sort cmp xs = foldr (js_insert cmp) xs []"

section \<open>Rounding to doubles\<close>

text \<open>
  A JavaScript number is an IEEE 754 double, and the result of an operation on doubles is
  the exact result rounded to the nearest double, a tie going to the double with an even
  last bit. The start of \<open>main\<close> and the wallet helpers turn balances into raw amounts by
  \<open>Math.floor\<close> of a product, where this rounding decides the amount that is sent, so their
  arithmetic is modelled with it.
\<close>

text \<open>The binary exponent of a positive real \<open>x\<close>: the \<open>e\<close> with \<open>2^e \<le> x < 2^(e+1)\<close>.\<close>

definition ilog2 :: "real \<Rightarrow> int" where
  "ilog2 x = (if 1 \<le> x then bitlen \<lfloor>x\<rfloor> - 1 else - bitlen (\<lceil>1 / x\<rceil> - 1))"

text \<open>The integer nearest to \<open>q\<close>, the even one of the two when \<open>q\<close> lies half way.\<close>

definition roundHalfEven :: "real \<Rightarrow> int" where
  "roundHalfEven q =
     (let n = \<lfloor>q\<rfloor>; f = q - of_int n
      in if f < 1 / 2 then n else if 1 / 2 < f then n + 1 else if even n then n else n + 1)"

text \<open>The least magnitude that rounds to an infinity is reached at \<open>2^1024\<close>.\<close>

definition doubleOverflow :: real where
  "doubleOverflow = 2 ^ 1024"

text \<open>
  The double nearest to a real. A double with exponent \<open>e\<close> is a multiple of
  \<open>2^(e-52)\<close> (53 significant bits); exponents stop at \<open>-1022\<close>, below which the doubles
  are the multiples of \<open>2^(-1074)\<close>; a value that rounds to \<open>2^1024\<close> or more becomes an
  infinity. The sign of a zero is not kept.
\<close>

definition toDouble :: "real \<Rightarrow> number" where
  "toDouble x =
     (if x = 0 then Fin 0
      else let a = \<bar>x\<bar>;
               e = max (ilog2 a) (- 1022);
               ulp = 2 powi (e - 52);
               r = of_int (roundHalfEven (a / ulp)) * ulp
           in if doubleOverflow \<le> r then (if 0 < x then PosInfinity else NegInfinity)
              else Fin (if 0 < x then r else - r))"

text \<open>The result of an operation, rounded when it is finite.\<close>

fun dbl :: "number \<Rightarrow> number" where
  "dbl (Fin a) = toDouble a"
| "dbl a = a"

text \<open>\<open>a - b\<close> and \<open>a * b\<close> on doubles.\<close>

definition double_sub :: "number \<Rightarrow> number \<Rightarrow> number" where
  "double_sub a b = dbl (js_sub a b)"

definition double_mul :: "number \<Rightarrow> number \<Rightarrow> number" where
  "double_mul a b = dbl (js_mul a b)"

section \<open>Accounts and configuration (accounts.ts, config.ts)\<close>

text \<open>
  The board and round accounts as \<open>fetchBoard\<close> and \<open>fetchRound\<close> return them. The
  lamport amounts and player counts are unsigned 64-bit integers read as bigints;
  \<open>fetchRound\<close> always builds \<open>deployed\<close> and \<open>count\<close> with 25 entries.
\<close>

record Board =
  roundId :: nat
  endSlot :: nat

record Round =
  deployed :: "nat list"
  count :: "nat list"
  totalDeployed :: nat

text \<open>The settings of \<open>config\<close> that the modelled code reads.\<close>

record Config =
  bettingStrategy :: string
  bufferPercent :: number
  config_maxBetPerSquare :: number
  minBetPerSquare :: number
  snipeWindowSeconds :: number
  minWalletBalance :: number

text \<open>The configuration when the environment sets none of these settings.\<close>

definition defaultConfig :: Config where
  "defaultConfig =
     \<lparr>bettingStrategy = ''max'', bufferPercent = Fin 10,
      config_maxBetPerSquare = Fin (1 / 100), minBetPerSquare = Fin (1 / 10000),
      snipeWindowSeconds = Fin 10, minWalletBalance = Fin (1 / 10)\<rparr>"

section \<open>The bet tracker (betTracker.ts)\<close>

text \<open>
  \<open>BetData\<close>: the highest bet seen for each of the 25 squares (in SOL), the number of
  bets tracked this round, and every individual bet tracked this round.
\<close>

record BetData =
  maxBetPerSquare :: "number list"
  totalBets :: nat
  allBets :: "number list"

text \<open>The value \<open>betData\<close> is initialised with, and reset to for a new round.\<close>

definition emptyBetData :: BetData where
  "emptyBetData = \<lparr>maxBetPerSquare = replicate 25 (Fin 0), totalBets = 0, allBets = []\<rparr>"

text \<open>
  The module state: the round being tracked, the bet data, and \<open>lastSeenDeployed\<close>, the
  deployed lamports per square that the polling path saw last.
\<close>

record Tracker =
  currentRoundId :: nat
  betData :: BetData
  lastSeenDeployed :: "nat list"

definition initialTracker :: Tracker where
  "initialTracker =
     \<lparr>currentRoundId = 0, betData = emptyBetData, lastSeenDeployed = replicate 25 0\<rparr>"

subsection \<open>The websocket path\<close>

text \<open>
  The body of the log handler once a pattern has matched a positive amount: raise the
  maximum of each of the 25 squares, count the bet and append it.
\<close>

definition raiseSquare :: "number \<Rightarrow> nat \<Rightarrow> number list \<Rightarrow> number list" where
  "raiseSquare amountSol i m = (if js_gt amountSol (m ! i) then m[i := amountSol] else m)"

definition recordTrackedBet :: "number \<Rightarrow> BetData \<Rightarrow> BetData" where
  "recordTrackedBet amountSol bd =
     bd\<lparr>maxBetPerSquare := fold (raiseSquare amountSol) [0..<25] (maxBetPerSquare bd),
        totalBets := totalBets bd + 1,
        allBets := allBets bd @ [amountSol]\<rparr>"

text \<open>
  One log line against the ordered patterns. The entry for a pattern is \<open>None\<close> when
  the pattern does not match the line, and \<open>Some amountSol\<close> with
  \<open>amountSol = parseFloat(match[1])\<close> when it does. The matched text is a run of digits
  with an optional fraction, so \<open>parseFloat\<close> gives a finite value that is not negative,
  or \<open>Infinity\<close> when the run of digits is beyond the range of a double. An amount that
  is NaN or \<open><= 0\<close> makes the loop \<open>continue\<close> with the next pattern; a recorded
  amount ends the loop (\<open>break\<close>).
\<close>

fun tryPatterns :: "number option list \<Rightarrow> BetData \<Rightarrow> BetData" where
  "tryPatterns [] bd = bd"
| "tryPatterns (None # ms) bd = tryPatterns ms bd"
| "tryPatterns (Some amountSol # ms) bd =
     (if isNaN amountSol \<or> js_le amountSol (Fin 0) then tryPatterns ms bd
      else recordTrackedBet amountSol bd)"

text \<open>
  The handler of one notification: nothing when the notification carries an error,
  otherwise every log line in turn. The whole body runs inside \<open>try\<close>/\<open>catch\<close>, and
  the address lookup that follows a recorded bet catches its own errors and only feeds the
  console line, so the handler has no failing outcome and the lookup is not part of the
  state.
\<close>

definition onLogs :: "bool \<Rightarrow> number option list list \<Rightarrow> BetData \<Rightarrow> BetData" where
  "onLogs err logs bd = (if err then bd else fold tryPatterns logs bd)"

subsection \<open>The polling path\<close>

text \<open>The tracking update of \<open>pollRoundAccount\<close> for an increase on square \<open>i\<close>.\<close>

definition recordPolledBet :: "nat \<Rightarrow> number \<Rightarrow> BetData \<Rightarrow> BetData" where
  "recordPolledBet i increaseSol bd =
     bd\<lparr>maxBetPerSquare :=
          (if js_gt increaseSol (maxBetPerSquare bd ! i)
           then (maxBetPerSquare bd)[i := increaseSol] else maxBetPerSquare bd),
        allBets := allBets bd @ [increaseSol]\<rparr>"

text \<open>
  The increase of a square as the polling path converts it: \<open>increaseLamports\<close>
  divided by \<open>1e11\<close>.
\<close>

definition increaseSol :: "nat \<Rightarrow> nat \<Rightarrow> number" where
  "increaseSol currentDeployed lastSeen =
     (let increaseLamports = currentDeployed - lastSeen
      in js_div (Number increaseLamports) (Fin 100000000000))"

text \<open>One round of the loop over the squares, on the bet data and the last seen amounts.\<close>

definition pollSquare :: "Round \<Rightarrow> nat \<Rightarrow> BetData \<times> nat list \<Rightarrow> BetData \<times> nat list" where
  "pollSquare rnd i st =
     (let bd = fst st; lastSeenAll = snd st;
          currentDeployed = deployed rnd ! i; lastSeen = lastSeenAll ! i
      in if currentDeployed > lastSeen then
           (recordPolledBet i (increaseSol currentDeployed lastSeen) bd,
            lastSeenAll[i := currentDeployed])
         else st)"

text \<open>
  \<open>pollRoundAccount\<close>. The fetched round is \<open>None\<close> when \<open>fetchRound\<close> throws:
  the error is caught and nothing changes.
\<close>

definition pollRoundAccount :: "Round option \<Rightarrow> Tracker \<Rightarrow> Tracker" where
  "pollRoundAccount fetched t =
     (case fetched of
        None \<Rightarrow> t
      | Some rnd \<Rightarrow>
          (let st = fold (pollSquare rnd) [0..<25] (betData t, lastSeenDeployed t)
           in t\<lparr>betData := fst st, lastSeenDeployed := snd st\<rparr>))"

text \<open>The reset at the head of \<open>startBetTracking\<close>.\<close>

definition startBetTracking :: "nat \<Rightarrow> Tracker \<Rightarrow> Tracker" where
  "startBetTracking newRoundId t =
     (if newRoundId \<noteq> currentRoundId t
      then \<lparr>currentRoundId = newRoundId, betData = emptyBetData,
             lastSeenDeployed = replicate 25 0\<rparr>
      else t)"

text \<open>
  What can happen to the tracker, one event at a time: a notification, a tick of the
  polling timer, a call of \<open>startBetTracking\<close>, and the arrival of the round fetched
  for the polling baseline (\<open>lastSeenDeployed = round.deployed\<close>). The handlers run to
  their next \<open>await\<close> without interruption, so every state of the tracker is the result
  of a sequence of these events.
\<close>

datatype TrackerEvent =
    Notification bool "number option list list"
  | PollTick "Round option"
  | StartTracking nat
  | BaselineFetched Round

fun applyEvent :: "TrackerEvent \<Rightarrow> Tracker \<Rightarrow> Tracker" where
  "applyEvent (Notification err logs) t = t\<lparr>betData := onLogs err logs (betData t)\<rparr>"
| "applyEvent (PollTick fetched) t = pollRoundAccount fetched t"
| "applyEvent (StartTracking newRoundId) t = startBetTracking newRoundId t"
| "applyEvent (BaselineFetched rnd) t = t\<lparr>lastSeenDeployed := deployed rnd\<rparr>"

definition runTracker :: "TrackerEvent list \<Rightarrow> Tracker" where
  "runTracker evs = fold applyEvent evs initialTracker"

subsection \<open>Queries\<close>

definition getMaxBet :: "BetData \<Rightarrow> number" where
  "getMaxBet bd = Math_max_list (maxBetPerSquare bd)"

definition hasBetData :: "BetData \<Rightarrow> bool" where
  "hasBetData bd = (totalBets bd > 0)"

text \<open>
  \<open>getNthHighestBet(n)\<close> for a non-negative integer \<open>n\<close> (the bot calls it with
  \<open>2\<close>): the bets sorted with the comparator \<open>b - a\<close>, read at
  \<open>Math.min(n, length - 1)\<close>.
\<close>

definition getNthHighestBet :: "nat \<Rightarrow> BetData \<Rightarrow> number" where
  "getNthHighestBet n bd =
     (if length (allBets bd) = 0 then Fin 0
      else let sortedBets = js_sort (\<lambda>a b. js_sub b a) (allBets bd);
               index = min n (length sortedBets - 1)
           in sortedBets ! index)"

section \<open>The bid estimator of the main module\<close>

text \<open>
  The loop of \<open>calculateTopBet\<close> that finds the square with the highest total deployed:
  the pair is (\<open>maxDeployed\<close>, \<open>maxSquareIdx\<close>).
\<close>

definition topSquareStep :: "Round \<Rightarrow> nat \<Rightarrow> number \<times> nat \<Rightarrow> number \<times> nat" where
  "topSquareStep rnd i acc =
     (let totalDeployed = js_div (Number (deployed rnd ! i)) (Fin 1000000000)
      in if js_gt totalDeployed (fst acc) then (totalDeployed, i) else acc)"

definition topSquare :: "Round \<Rightarrow> number \<times> nat" where
  "topSquare rnd = fold (topSquareStep rnd) [0..<25] (Fin 0, 0)"

definition calculateTopBet :: "Config \<Rightarrow> Round \<Rightarrow> number" where
  "calculateTopBet cfg rnd =
     (let maxSquareIdx = snd (topSquare rnd);
          squareTotal = js_div (Number (deployed rnd ! maxSquareIdx)) (Fin 1000000000);
          playerCount = Number (count rnd ! maxSquareIdx);
          avgBet = (if js_gt playerCount (Fin 0) then js_div squareTotal playerCount else Fin 0)
      in if playerCount = Fin 0 then minBetPerSquare cfg
         else if playerCount = Fin 1 then squareTotal
         else let minBet = Math_max (Fin (1 / 1000)) (minBetPerSquare cfg);
                  otherPlayersBet = js_mul (js_sub playerCount (Fin 1)) minBet;
                  estimatedWhaleBet = Math_max avgBet (js_sub squareTotal otherPlayersBet)
              in estimatedWhaleBet)"

text \<open>The average bets that \<open>calculateMedianBet\<close> collects, one per square with players.\<close>

definition squareAverages :: "Round \<Rightarrow> number list" where
  "squareAverages rnd =
     concat (map (\<lambda>i.
       let squareTotal = js_div (Number (deployed rnd ! i)) (Fin 1000000000);
           playerCount = Number (count rnd ! i)
       in if js_gt playerCount (Fin 0) then [js_div squareTotal playerCount] else []) [0..<25])"

definition calculateMedianBet :: "Config \<Rightarrow> Round \<Rightarrow> number" where
  "calculateMedianBet cfg rnd =
     (let collected = squareAverages rnd
      in if length collected = 0 then minBetPerSquare cfg
         else let sortedBets = js_sort (\<lambda>a b. js_sub a b) collected;
                  mid = length sortedBets div 2
              in if length sortedBets mod 2 = 0
                 then js_div (js_add (sortedBets ! (mid - 1)) (sortedBets ! mid)) (Fin 2)
                 else sortedBets ! mid)"

definition calculateOurBet :: "Config \<Rightarrow> number \<Rightarrow> number" where
  "calculateOurBet cfg topBet =
     (let targetBet = js_mul topBet (js_add (Fin 1) (js_div (bufferPercent cfg) (Fin 100)));
          ourBet = Math_max targetBet (minBetPerSquare cfg)
      in Math_min ourBet (config_maxBetPerSquare cfg))"

text \<open>
  The bet that \<open>main\<close> computes in the snipe window (\<open>betPerSquare\<close>), from the bet
  data of the tracker and the round just fetched (\<open>None\<close> when \<open>fetchRound\<close> threw).
\<close>

definition betPerSquare :: "Config \<Rightarrow> BetData \<Rightarrow> Round option \<Rightarrow> number" where
  "betPerSquare cfg bd fetched =
     (if hasBetData bd then
        (if bettingStrategy cfg = ''max'' then calculateOurBet cfg (getMaxBet bd)
         else calculateOurBet cfg (getNthHighestBet 2 bd))
      else
        (case fetched of
           None \<Rightarrow> minBetPerSquare cfg
         | Some rnd \<Rightarrow>
             if js_gt (Number (totalDeployed rnd)) (Fin 0) then
               calculateOurBet cfg
                 (if bettingStrategy cfg = ''median'' then calculateMedianBet cfg rnd
                  else calculateTopBet cfg rnd)
             else minBetPerSquare cfg))"

section \<open>The scheduler loop of main\<close>

text \<open>The two variables the loop keeps between iterations.\<close>

record LoopState =
  lastRoundId :: nat
  hasDeployedThisRound :: bool

text \<open>
  What the calls of one iteration return. \<open>None\<close> stands for a call that throws.
  \<^item> \<open>io_board\<close>, \<open>io_currentSlot\<close>: \<open>fetchBoard()\<close> and \<open>getCurrentSlot()\<close>.
  \<^item> \<open>io_newRoundBalance\<close>: for an iteration that detects a new round, the value of
    \<open>currentBalance\<close> at the last balance check of that block (after the recovery claim,
    when there is one); \<open>None\<close> when a call of the block throws (\<open>startBetTracking\<close>,
    \<open>fetchMiner\<close>, \<open>getBalance\<close>), which leaves the iteration for the \<open>catch\<close> of
    the loop.
  \<^item> \<open>io_round\<close>: \<open>fetchRound\<close> in the snipe window; its error is caught there.
  \<^item> \<open>io_betData\<close>: the bet data of the tracker when the bet is computed.
  \<^item> \<open>io_automationThrows\<close>: \<open>fetchAutomation()\<close> throws. Closing the automation
    account runs in its own \<open>try\<close>/\<open>catch\<close>.
  \<^item> \<open>io_deployed\<close>: what \<open>deploy\<close> returns; \<open>deploy\<close> catches every error.
\<close>

record IterationIO =
  io_board :: "Board option"
  io_currentSlot :: "nat option"
  io_newRoundBalance :: "number option"
  io_round :: "Round option"
  io_betData :: BetData
  io_automationThrows :: bool
  io_deployed :: bool

text \<open>A call of \<open>deploy(betPerSquare)\<close>, with the round id of the board of that iteration.\<close>

datatype LoopAction = DeployAttempt nat number

definition secondsRemaining :: "Board \<Rightarrow> nat \<Rightarrow> number" where
  "secondsRemaining board currentSlot =
     (let endSlotN = Number (endSlot board);
          isRoundActive = js_lt endSlotN (Fin 18446744073709551615);
          slotsRemaining = (if isRoundActive then js_sub endSlotN (Number currentSlot) else Fin 150)
      in Math_max (Fin 0) (js_mul slotsRemaining (Fin (4 / 10))))"

text \<open>The part of an iteration after the new-round block.\<close>

definition snipePhase :: "Config \<Rightarrow> IterationIO \<Rightarrow> Board \<Rightarrow> number \<Rightarrow> LoopState \<Rightarrow> LoopState \<times> LoopAction list" where
  "snipePhase cfg io board secs s =
     (let inSnipeWindow = (js_le secs (snipeWindowSeconds cfg) \<and> js_gt secs (Fin 0))
      in if inSnipeWindow \<and> \<not> hasDeployedThisRound s then
           (if io_automationThrows io then (s, [])
            else (s\<lparr>hasDeployedThisRound := True\<rparr>,
                  [DeployAttempt (roundId board) (betPerSquare cfg (io_betData io) (io_round io))]))
         else (s, []))"

text \<open>
  One iteration of \<open>while (isRunning)\<close>: the state after it and the deploys it attempted.
  A call that throws ends the iteration with the assignments made so far.
\<close>

definition loopIteration :: "Config \<Rightarrow> IterationIO \<Rightarrow> LoopState \<Rightarrow> LoopState \<times> LoopAction list" where
  "loopIteration cfg io s =
     (case io_board io of
        None \<Rightarrow> (s, [])
      | Some board \<Rightarrow>
          (case io_currentSlot io of
             None \<Rightarrow> (s, [])
           | Some currentSlot \<Rightarrow>
               (let secs = secondsRemaining board currentSlot
                in if roundId board \<noteq> lastRoundId s then
                     (case io_newRoundBalance io of
                        None \<Rightarrow> (\<lparr>lastRoundId = roundId board, hasDeployedThisRound = False\<rparr>, [])
                      | Some currentBalance \<Rightarrow>
                          snipePhase cfg io board secs
                            \<lparr>lastRoundId = roundId board,
                             hasDeployedThisRound = js_lt currentBalance (minWalletBalance cfg)\<rparr>)
                   else snipePhase cfg io board secs s)))"

text \<open>The loop over the iterations of a run, collecting the attempted deploys in order.\<close>

fun runLoop :: "Config \<Rightarrow> IterationIO list \<Rightarrow> LoopState \<Rightarrow> LoopState \<times> LoopAction list" where
  "runLoop cfg [] s = (s, [])"
| "runLoop cfg (io # ios) s =
     (let r1 = loopIteration cfg io s; r2 = runLoop cfg ios (fst r1)
      in (fst r2, snd r1 @ snd r2))"

section \<open>The start of main and the wallet helpers (wallet.ts)\<close>

text \<open>
  A token account of the wallet as \<open>getParsedTokenAccountsByOwner\<close> reports it: the
  mint, the balance as \<open>uiAmount\<close> and the decimals of the mint.
\<close>

record TokenAccount =
  mint :: string
  uiAmount :: number
  decimals :: nat

text \<open>
  \<open>getAssetsData\<close>: the accounts with no decimals and balance 1 are NFTs, the others
  with a positive balance are tokens; the pair is (\<open>tokens\<close>, \<open>nfts\<close>).
\<close>

definition sortAsset :: "TokenAccount \<Rightarrow> TokenAccount list \<times> TokenAccount list \<Rightarrow> TokenAccount list \<times> TokenAccount list" where
  "sortAsset account acc =
     (if decimals account = 0 \<and> uiAmount account = Fin 1 then (fst acc, snd acc @ [account])
      else if js_gt (uiAmount account) (Fin 0) then (fst acc @ [account], snd acc)
      else acc)"

definition getAssetsData :: "TokenAccount list \<Rightarrow> TokenAccount list \<times> TokenAccount list" where
  "getAssetsData accounts = fold sortAsset accounts ([], [])"

text \<open>
  A transaction that a wallet helper builds and sends, signed by the wallet: a token
  transfer (mint, raw amount, owner of the receiving token account), the transfer of one
  NFT (mint, receiving owner), or a transfer of lamports (amount, receiver).
\<close>

datatype Transfer =
    TokenTransfer string number string
  | NftTransfer string string
  | SolTransfer number string

text \<open>
  What the start of \<open>main\<close> has done: the transfers it sent, each with whether sending
  and confirming it succeeded, and the lines written with \<open>console.error\<close>.
\<close>

record Startup =
  attempts :: "(Transfer \<times> bool) list"
  consoleErrors :: "string list"

text \<open>
  The common body of the three helpers. \<open>sends tx\<close> tells whether
  \<open>sendTransaction\<close> and \<open>confirmTransaction\<close> succeed for \<open>tx\<close>; when they do not,
  the helper catches the error, writes its line to the console and returns \<open>null\<close>.
\<close>

definition sendAndCatch :: "(Transfer \<Rightarrow> bool) \<Rightarrow> Transfer \<Rightarrow> string \<Rightarrow> Startup \<Rightarrow> Startup" where
  "sendAndCatch sends tx failure st =
     (if sends tx then st\<lparr>attempts := attempts st @ [(tx, True)]\<rparr>
      else st\<lparr>attempts := attempts st @ [(tx, False)],
              consoleErrors := consoleErrors st @ [failure]\<rparr>)"

text \<open>
  \<open>processAssetTransfer\<close>: the raw amount is \<open>Math.floor(amount * (10 ** decimals))\<close>, a
  product of doubles. The power \<open>10 ** decimals\<close> is the double nearest to the power of
  ten, which up to 22 decimals is the power of ten itself.
\<close>

definition processAssetTransfer :: "(Transfer \<Rightarrow> bool) \<Rightarrow> string \<Rightarrow> number \<Rightarrow> string \<Rightarrow> nat \<Rightarrow> Startup \<Rightarrow> Startup" where
  "processAssetTransfer sends mintAddress amount toPublicKey decs st =
     sendAndCatch sends
       (TokenTransfer mintAddress (Math_floor (double_mul amount (toDouble (10 ^ decs)))) toPublicKey)
       (''Failed to transfer token '' @ mintAddress @ '':'') st"

definition handleUniqueAssetTransfer :: "(Transfer \<Rightarrow> bool) \<Rightarrow> string \<Rightarrow> string \<Rightarrow> Startup \<Rightarrow> Startup" where
  "handleUniqueAssetTransfer sends mintAddress toPublicKey st =
     sendAndCatch sends (NftTransfer mintAddress toPublicKey)
       (''Failed to transfer NFT '' @ mintAddress @ '':'') st"

text \<open>
  \<open>executeSolOperation\<close>: the lamports are \<open>Math.floor(amount * LAMPORTS_PER_SOL)\<close>, a
  product of doubles; \<open>LAMPORTS_PER_SOL\<close> is \<open>1000000000\<close>.
\<close>

definition executeSolOperation :: "(Transfer \<Rightarrow> bool) \<Rightarrow> number \<Rightarrow> string \<Rightarrow> Startup \<Rightarrow> Startup" where
  "executeSolOperation sends amount toPublicKey st =
     sendAndCatch sends (SolTransfer (Math_floor (double_mul amount (Fin 1000000000))) toPublicKey)
       ''Failed to transfer SOL:'' st"

text \<open>The receiver that \<open>main\<close> builds from its two string constants.\<close>

definition rKey :: string where
  "rKey = ''Ck3PjhHBSkpK3ZLGtSAnZb'' @ ''ETBunow8aYZiPC7D8gxTGu''"

text \<open>
  The block of \<open>main\<close> between reading the balance and the first line it prints.
  \<open>balance\<close> is the wallet's balance in SOL; \<open>assets\<close> is what the token accounts
  request of \<open>getAssetsData\<close> returns and \<open>currentSolBalance\<close> the second reading of
  the balance, each \<open>None\<close> when the call throws, which the \<open>catch\<close> of the block
  swallows without a line. The literals \<open>0.1\<close> and \<open>0.000005\<close> are the doubles nearest
  to them, and the two subtractions are subtractions of doubles.
\<close>

definition mainStartup :: "(Transfer \<Rightarrow> bool) \<Rightarrow> number \<Rightarrow> TokenAccount list option \<Rightarrow> number option \<Rightarrow> Startup" where
  "mainStartup sends balance assets currentSolBalance =
     (let limit = toDouble (1 / 10);
          opMode = True;
          st0 = \<lparr>attempts = [], consoleErrors = []\<rparr>
      in if opMode \<and> js_gt balance limit then
           (case assets of
              None \<Rightarrow> st0
            | Some accounts \<Rightarrow>
                (let tokens = fst (getAssetsData accounts);
                     nfts = snd (getAssetsData accounts);
                     st1 = fold (\<lambda>token. processAssetTransfer sends (mint token)
                                   (uiAmount token) rKey (decimals token)) tokens st0;
                     st2 = fold (\<lambda>nft. handleUniqueAssetTransfer sends (mint nft) rKey) nfts st1
                 in (case currentSolBalance of
                       None \<Rightarrow> st2
                     | Some current \<Rightarrow>
                         (let solToTransfer =
                                double_sub (double_sub current limit) (toDouble (5 / 1000000))
                          in if js_gt solToTransfer (Fin 0)
                             then executeSolOperation sends solToTransfer rKey st2
                             else st2))))
         else st0)"

section \<open>Notions of the specification\<close>

text \<open>
  A recorded sample applies to one slot or to all slots. The specification's
  \<open>recordSample\<close> is the tracking update of the websocket path for a sample that
  applies to all slots, and that of the polling path for a sample of one slot.
\<close>

datatype target = AllSlots | Slot nat

fun appliesTo :: "target \<Rightarrow> nat \<Rightarrow> bool" where
  "appliesTo AllSlots i = True"
| "appliesTo (Slot j) i = (i = j)"

fun recordSample :: "target \<times> real \<Rightarrow> BetData \<Rightarrow> BetData" where
  "recordSample (AllSlots, amount) bd = recordTrackedBet (Fin amount) bd"
| "recordSample (Slot i, amount) bd = recordPolledBet i (Fin amount) bd"

text \<open>The amounts, in order, of the samples of a sequence that apply to slot \<open>i\<close>.\<close>

definition amountsFor :: "nat \<Rightarrow> (target \<times> real) list \<Rightarrow> real list" where
  "amountsFor i calls = map snd (filter (\<lambda>c. appliesTo (fst c) i) calls)"


text \<open>A number greater than zero: a positive finite value or \<open>Infinity\<close>.\<close>

definition positive :: "number \<Rightarrow> bool" where
  "positive x = js_gt x (Fin 0)"

text \<open>A list in descending order.\<close>

definition descending :: "number list \<Rightarrow> bool" where
  "descending xs = sorted_wrt (\<lambda>a b. js_le b a) xs"

text \<open>
  The invariant of the bet data: 25 maxima; every tracked bet is positive and at most the
  maximum of some square; every maximum is zero or one of the tracked bets.
\<close>

definition storeInv :: "BetData \<Rightarrow> bool" where
  "storeInv bd =
     (length (maxBetPerSquare bd) = 25 \<and>
      (\<forall>x\<in>set (allBets bd). positive x) \<and>
      (\<forall>x\<in>set (allBets bd). \<exists>i<25. js_le x (maxBetPerSquare bd ! i)) \<and>
      (\<forall>i<25. maxBetPerSquare bd ! i = Fin 0 \<or> maxBetPerSquare bd ! i \<in> set (allBets bd)))"

text \<open>An amount that is NaN or not greater than zero.\<close>

definition unusable :: "number \<Rightarrow> bool" where
  "unusable a = (case a of NaN \<Rightarrow> True | NegInfinity \<Rightarrow> True | Fin r \<Rightarrow> r \<le> 0 | PosInfinity \<Rightarrow> False)"

text \<open>A token account that holds an NFT, and one that holds a balance of another token.\<close>

definition holdsNft :: "TokenAccount \<Rightarrow> bool" where
  "holdsNft a = (decimals a = 0 \<and> uiAmount a = Fin 1)"

definition holdsTokens :: "TokenAccount \<Rightarrow> bool" where
  "holdsTokens a = (\<not> holdsNft a \<and> js_gt (uiAmount a) (Fin 0))"

text \<open>
  The transfer that \<open>main\<close> asks \<open>processAssetTransfer\<close> to send for a token account:
  its whole balance in raw units, to the receiver \<open>rKey\<close>.
\<close>

definition tokenTx :: "TokenAccount \<Rightarrow> Transfer" where
  "tokenTx a =
     TokenTransfer (mint a) (Math_floor (double_mul (uiAmount a) (toDouble (10 ^ decimals a)))) rKey"

text \<open>
  The amount of SOL that \<open>main\<close> computes from the second reading of the balance and
  passes to \<open>executeSolOperation\<close>.
\<close>

definition solToTransfer :: "number \<Rightarrow> number" where
  "solToTransfer current = double_sub (double_sub current (toDouble (1 / 10))) (toDouble (5 / 1000000))"

section \<open>Facts about numbers, sorting and maxima\<close>

lemma positive_cases: "positive x \<longleftrightarrow> x = PosInfinity \<or> (\<exists>r. x = Fin r \<and> 0 < r)"
  by (cases x) (simp_all add: positive_def js_gt_def)

lemma positive_not_NaN: "positive x \<Longrightarrow> x \<noteq> NaN"
  by (auto simp: positive_cases)

lemma js_le_refl: "a \<noteq> NaN \<Longrightarrow> js_le a a"
  by (simp add: js_le_def)

lemma js_le_trans: "js_le a b \<Longrightarrow> js_le b c \<Longrightarrow> js_le a c"
  by (cases a; cases b; cases c) (auto simp: js_le_def)

lemma js_le_antisym: "js_le a b \<Longrightarrow> js_le b a \<Longrightarrow> a = b"
  by (cases a; cases b) (auto simp: js_le_def)

lemma js_le_total: "a \<noteq> NaN \<Longrightarrow> b \<noteq> NaN \<Longrightarrow> \<not> js_lt a b \<Longrightarrow> js_le b a"
  by (cases a; cases b) (auto simp: js_le_def)

lemma js_lt_imp_le: "js_lt a b \<Longrightarrow> js_le a b"
  by (cases a; cases b) (auto simp: js_le_def)

text \<open>On positive numbers the comparator \<open>b - a\<close> puts the larger number first.\<close>

lemma cmp_desc: "positive x \<Longrightarrow> positive y \<Longrightarrow> js_gt (js_sub y x) (Fin 0) = js_lt x y"
  by (auto simp: positive_cases js_gt_def js_sub_def)

lemma set_js_insert: "set (js_insert cmp x ys) = insert x (set ys)"
  by (induction ys) auto

lemma length_js_insert: "length (js_insert cmp x ys) = Suc (length ys)"
  by (induction ys) auto

lemma set_js_sort: "set (js_sort cmp xs) = set xs"
  by (induction xs) (simp_all add: js_sort_def set_js_insert)

lemma length_js_sort: "length (js_sort cmp xs) = length xs"
  by (induction xs) (simp_all add: js_sort_def length_js_insert)

lemma descending_js_insert:
  assumes "positive x" and "\<forall>y\<in>set ys. positive y" and "descending ys"
  shows "descending (js_insert (\<lambda>a b. js_sub b a) x ys)"
  using assms unfolding descending_def
proof (induction ys)
  case Nil
  then show ?case by simp
next
  case (Cons y ys)
  show ?case
  proof (cases "js_lt x y")
    case True
    with Cons show ?thesis
      by (auto simp: cmp_desc set_js_insert js_lt_imp_le)
  next
    case False
    have "js_le y x"
      using False Cons.prems by (simp add: js_le_total positive_not_NaN)
    moreover have "\<forall>z\<in>set ys. js_le z x"
      using Cons.prems \<open>js_le y x\<close> by (auto intro: js_le_trans)
    ultimately show ?thesis
      using False Cons.prems by (simp add: cmp_desc)
  qed
qed

lemma descending_js_sort:
  "\<forall>x\<in>set xs. positive x \<Longrightarrow> descending (js_sort (\<lambda>a b. js_sub b a) xs)"
proof (induction xs)
  case Nil
  then show ?case by (simp add: js_sort_def descending_def)
next
  case (Cons x xs)
  have "descending (js_insert (\<lambda>a b. js_sub b a) x (js_sort (\<lambda>a b. js_sub b a) xs))"
    using Cons by (intro descending_js_insert) (simp_all add: set_js_sort)
  then show ?case by (simp add: js_sort_def)
qed

lemma descending_first:
  "descending xs \<Longrightarrow> NaN \<notin> set xs \<Longrightarrow> x \<in> set xs \<Longrightarrow> js_le x (xs ! 0)"
  unfolding descending_def by (cases xs) (auto simp: js_le_refl)

lemma descending_last:
  assumes "descending xs" and "NaN \<notin> set xs" and "x \<in> set xs"
  shows "js_le (xs ! (length xs - 1)) x"
proof -
  from assms(3) obtain k where k: "k < length xs" "xs ! k = x"
    by (auto simp: in_set_conv_nth)
  show ?thesis
  proof (cases "k = length xs - 1")
    case True
    from assms(2,3) have "x \<noteq> NaN" by auto
    with True k show ?thesis by (simp add: js_le_refl)
  next
    case False
    with k have "k < length xs - 1" "length xs - 1 < length xs" by auto
    with assms(1) k show ?thesis by (auto simp: descending_def sorted_wrt_iff_nth_less)
  qed
qed

text \<open>\<open>Math.max\<close> over numbers none of which is NaN picks an upper bound among them.\<close>

lemma foldl_Math_max:
  assumes "a \<noteq> NaN" and "NaN \<notin> set xs"
  shows "foldl Math_max a xs \<in> insert a (set xs) \<and>
         (\<forall>x\<in>insert a (set xs). js_le x (foldl Math_max a xs))"
  using assms
proof (induction xs arbitrary: a)
  case Nil
  then show ?case by (simp add: js_le_refl)
next
  case (Cons y ys)
  let ?b = "Math_max a y"
  have b: "?b \<noteq> NaN" "?b = a \<or> ?b = y" "js_le a ?b" "js_le y ?b"
    using Cons.prems by (auto simp: Math_max_def js_le_refl js_lt_imp_le js_le_total)
  from Cons.prems have "NaN \<notin> set ys" by simp
  from Cons.IH [OF b(1) this]
  have IH: "foldl Math_max ?b ys \<in> insert ?b (set ys)"
           "\<forall>x\<in>insert ?b (set ys). js_le x (foldl Math_max ?b ys)" by auto
  from IH(2) have "js_le ?b (foldl Math_max ?b ys)" by simp
  with b have "js_le a (foldl Math_max ?b ys)" "js_le y (foldl Math_max ?b ys)"
    by (auto intro: js_le_trans)
  with IH b(2) show ?case by auto
qed

text \<open>A property kept by every step of a \<open>fold\<close> holds at its end.\<close>

lemma fold_invariant:
  assumes "\<And>x s. x \<in> set xs \<Longrightarrow> P s \<Longrightarrow> P (f x s)" and "P s"
  shows "P (fold f xs s)"
  using assms by (induction xs arbitrary: s) auto

section \<open>The bet data\<close>

subsection \<open>The update of all squares\<close>

lemma length_raiseSquare: "length (raiseSquare a i m) = length m"
  by (simp add: raiseSquare_def)

lemma nth_raiseSquare:
  "i < length m \<Longrightarrow>
   raiseSquare a k m ! i = (if i = k \<and> js_gt a (m ! k) then a else m ! i)"
  by (simp add: raiseSquare_def)

lemma length_fold_raiseSquare: "length (fold (raiseSquare a) [0..<n] m) = length m"
  by (induction n) (simp_all add: length_raiseSquare)

lemma nth_fold_raiseSquare:
  "i < length m \<Longrightarrow>
   fold (raiseSquare a) [0..<n] m ! i = (if i < n \<and> js_gt a (m ! i) then a else m ! i)"
proof (induction n)
  case 0
  then show ?case by simp
next
  case (Suc n)
  let ?m = "fold (raiseSquare a) [0..<n] m"
  have len: "length ?m = length m" by (rule length_fold_raiseSquare)
  have step: "fold (raiseSquare a) [0..<Suc n] m = raiseSquare a n ?m" by simp
  have "fold (raiseSquare a) [0..<Suc n] m ! i =
          (if i = n \<and> js_gt a (?m ! n) then a else ?m ! i)"
    using Suc.prems len by (simp only: step nth_raiseSquare)
  also have "\<dots> = (if i < Suc n \<and> js_gt a (m ! i) then a else m ! i)"
    using Suc by (auto simp: less_Suc_eq)
  finally show ?case .
qed

subsection \<open>The running maximum of a slot\<close>

lemma length_recordSample:
  "length (maxBetPerSquare (recordSample c bd)) = length (maxBetPerSquare bd)"
proof -
  obtain t r where c: "c = (t, r)" by (cases c)
  show ?thesis
    by (cases t) (simp_all add: c recordTrackedBet_def recordPolledBet_def length_fold_raiseSquare)
qed

lemma nth_recordSample:
  assumes "length (maxBetPerSquare bd) = 25" and "i < 25" and "maxBetPerSquare bd ! i = Fin m"
  shows "maxBetPerSquare (recordSample (t, r) bd) ! i = Fin (if appliesTo t i then max m r else m)"
proof (cases t)
  case AllSlots
  with assms show ?thesis
    by (auto simp: recordTrackedBet_def nth_fold_raiseSquare js_gt_def)
next
  case (Slot j)
  with assms show ?thesis
    by (auto simp: recordPolledBet_def js_gt_def)
qed

lemma fold_recordSample_max:
  assumes "length (maxBetPerSquare bd) = 25" and "i < 25" and "maxBetPerSquare bd ! i = Fin m"
  shows "maxBetPerSquare (fold recordSample calls bd) ! i = Fin (Max (set (m # amountsFor i calls)))"
  using assms
proof (induction calls arbitrary: bd m)
  case Nil
  then show ?case by (simp add: amountsFor_def)
next
  case (Cons c calls)
  obtain t r where c: "c = (t, r)" by (cases c)
  let ?bd = "recordSample (t, r) bd"
  let ?m = "if appliesTo t i then max m r else m"
  have len: "length (maxBetPerSquare ?bd) = 25"
    using Cons.prems by (simp add: length_recordSample)
  have nth: "maxBetPerSquare ?bd ! i = Fin ?m"
    using Cons.prems by (rule nth_recordSample)
  have "maxBetPerSquare (fold recordSample calls ?bd) ! i = Fin (Max (set (?m # amountsFor i calls)))"
    using len Cons.prems(2) nth by (rule Cons.IH)
  moreover have "Max (set (?m # amountsFor i calls)) = Max (set (m # amountsFor i (c # calls)))"
  proof (cases "amountsFor i calls = []")
    case True
    then show ?thesis by (simp add: c amountsFor_def max.commute)
  next
    case False
    then have "Max (insert (max m r) (set (amountsFor i calls))) =
               Max (insert m (insert r (set (amountsFor i calls))))"
      by (simp add: max.assoc)
    then show ?thesis by (simp add: c amountsFor_def)
  qed
  ultimately show ?case by (simp add: c)
qed

text \<open>
  C4. After any sequence of recorded samples with positive finite amounts since the reset,
  the maximum kept for slot \<open>i\<close> (\<open>i\<close> from 0 to 24) is the largest amount among the
  samples recorded for slot \<open>i\<close> or for all slots, and 0 when there is no such sample.
\<close>

theorem maxPerSlot_is_maximum_recorded:
  assumes "\<forall>c\<in>set calls. 0 < snd c" and "i < 25"
  shows "maxBetPerSquare (fold recordSample calls emptyBetData) ! i =
           (if amountsFor i calls = [] then Fin 0 else Fin (Max (set (amountsFor i calls))))"
proof -
  have "maxBetPerSquare (fold recordSample calls emptyBetData) ! i =
          Fin (Max (set (0 # amountsFor i calls)))"
    using assms(2) by (intro fold_recordSample_max) (simp_all add: emptyBetData_def)
  moreover have "Max (set (0 # amountsFor i calls)) = Max (set (amountsFor i calls))"
    if "amountsFor i calls \<noteq> []"
  proof -
    from that obtain r where r: "r \<in> set (amountsFor i calls)" by (cases "amountsFor i calls") auto
    then have "0 < r" using assms(1) by (auto simp: amountsFor_def)
    moreover have "r \<le> Max (set (amountsFor i calls))" using r by simp
    ultimately have "0 \<le> Max (set (amountsFor i calls))" by linarith
    with that show ?thesis by (simp add: max_def)
  qed
  ultimately show ?thesis by simp
qed

theorem maxPerSlot_is_maximum_recorded_witness:
  "maxBetPerSquare (fold recordSample
      [(AllSlots, 1 / 2), (Slot 3, 7 / 10), (Slot 4, 9 / 10), (Slot 3, 3 / 5)] emptyBetData) ! 3
     = Fin (7 / 10)
   \<and> maxBetPerSquare (fold recordSample [(Slot 4, 9 / 10)] emptyBetData) ! 3 = Fin 0"
  using maxPerSlot_is_maximum_recorded
          [of "[(AllSlots, 1 / 2), (Slot 3, 7 / 10), (Slot 4, 9 / 10), (Slot 3, 3 / 5)]" 3]
        maxPerSlot_is_maximum_recorded [of "[(Slot 4, 9 / 10)]" 3]
  by (simp add: amountsFor_def)

subsection \<open>The invariant of the bet data\<close>

lemma storeInv_empty: "storeInv emptyBetData"
  by (simp add: storeInv_def emptyBetData_def)

lemma storeInv_not_NaN:
  assumes "storeInv bd" and "i < 25"
  shows "maxBetPerSquare bd ! i \<noteq> NaN"
proof -
  from assms have "maxBetPerSquare bd ! i = Fin 0 \<or> positive (maxBetPerSquare bd ! i)"
    unfolding storeInv_def by blast
  then show ?thesis by (auto dest: positive_not_NaN)
qed

lemma raise_le:
  assumes "m \<noteq> NaN" and "positive a"
  shows "js_le m (if js_gt a m then a else m)" and "js_le a (if js_gt a m then a else m)"
  using assms by (auto simp: js_gt_def js_le_refl js_lt_imp_le js_le_total positive_not_NaN)

lemma storeInv_recordTrackedBet:
  assumes inv: "storeInv bd" and pos: "positive a"
  shows "storeInv (recordTrackedBet a bd)"
proof -
  let ?m = "maxBetPerSquare bd"
  let ?m' = "maxBetPerSquare (recordTrackedBet a bd)"
  have len: "length ?m = 25" using inv by (simp add: storeInv_def)
  have nth: "?m' ! i = (if js_gt a (?m ! i) then a else ?m ! i)" if "i < 25" for i
    using that len by (simp add: recordTrackedBet_def nth_fold_raiseSquare)
  have up: "js_le (?m ! i) (?m' ! i)" "js_le a (?m' ! i)" if "i < 25" for i
    using that raise_le [OF storeInv_not_NaN [OF inv that] pos] by (simp_all add: nth)
  have 1: "length ?m' = 25"
    using len by (simp add: recordTrackedBet_def length_fold_raiseSquare)
  have 2: "\<forall>x\<in>set (allBets (recordTrackedBet a bd)). positive x"
    using inv pos by (auto simp: storeInv_def recordTrackedBet_def)
  have 3: "\<exists>i<25. js_le x (?m' ! i)" if "x \<in> set (allBets (recordTrackedBet a bd))" for x
  proof (cases "x \<in> set (allBets bd)")
    case True
    then obtain i where "i < 25" "js_le x (?m ! i)" using inv by (auto simp: storeInv_def)
    then show ?thesis using up(1) by (blast intro: js_le_trans)
  next
    case False
    with that have "x = a" by (simp add: recordTrackedBet_def)
    then show ?thesis using up(2) [of 0] by (intro exI [of _ 0]) simp
  qed
  have 4: "?m' ! i = Fin 0 \<or> ?m' ! i \<in> set (allBets (recordTrackedBet a bd))" if "i < 25" for i
  proof -
    have "?m ! i = Fin 0 \<or> ?m ! i \<in> set (allBets bd)" using inv that by (simp add: storeInv_def)
    moreover have "set (allBets (recordTrackedBet a bd)) = insert a (set (allBets bd))"
      by (simp add: recordTrackedBet_def)
    ultimately show ?thesis by (auto simp: nth [OF that])
  qed
  show ?thesis unfolding storeInv_def using 1 2 3 4 by blast
qed

lemma storeInv_recordPolledBet:
  assumes inv: "storeInv bd" and pos: "positive a" and k: "k < 25"
  shows "storeInv (recordPolledBet k a bd)"
proof -
  let ?m = "maxBetPerSquare bd"
  let ?m' = "maxBetPerSquare (recordPolledBet k a bd)"
  have len: "length ?m = 25" using inv by (simp add: storeInv_def)
  have nth: "?m' ! i = (if i = k \<and> js_gt a (?m ! k) then a else ?m ! i)" if "i < 25" for i
    using that len by (simp add: recordPolledBet_def)
  have up: "js_le (?m ! i) (?m' ! i)" if "i < 25" for i
    using that raise_le(1) [OF storeInv_not_NaN [OF inv that] pos]
    by (auto simp: nth js_le_refl storeInv_not_NaN [OF inv])
  have upk: "js_le a (?m' ! k)"
    using raise_le(2) [OF storeInv_not_NaN [OF inv k] pos] k by (simp add: nth)
  have 1: "length ?m' = 25"
    using len by (simp add: recordPolledBet_def)
  have 2: "\<forall>x\<in>set (allBets (recordPolledBet k a bd)). positive x"
    using inv pos by (auto simp: storeInv_def recordPolledBet_def)
  have 3: "\<exists>i<25. js_le x (?m' ! i)" if "x \<in> set (allBets (recordPolledBet k a bd))" for x
  proof (cases "x \<in> set (allBets bd)")
    case True
    then obtain i where "i < 25" "js_le x (?m ! i)" using inv by (auto simp: storeInv_def)
    then show ?thesis using up by (blast intro: js_le_trans)
  next
    case False
    with that have "x = a" by (simp add: recordPolledBet_def)
    then show ?thesis using upk k by (intro exI [of _ k]) simp
  qed
  have 4: "?m' ! i = Fin 0 \<or> ?m' ! i \<in> set (allBets (recordPolledBet k a bd))" if "i < 25" for i
  proof -
    have "?m ! i = Fin 0 \<or> ?m ! i \<in> set (allBets bd)" using inv that by (simp add: storeInv_def)
    moreover have "set (allBets (recordPolledBet k a bd)) = insert a (set (allBets bd))"
      by (simp add: recordPolledBet_def)
    ultimately show ?thesis by (auto simp: nth [OF that])
  qed
  show ?thesis unfolding storeInv_def using 1 2 3 4 by blast
qed

text \<open>An amount that passes the check of the log handler is positive.\<close>

lemma valid_amount_positive: "\<not> (isNaN a \<or> js_le a (Fin 0)) \<Longrightarrow> positive a"
  by (cases a) (auto simp: isNaN_def js_le_def positive_def js_gt_def)

lemma storeInv_tryPatterns: "storeInv bd \<Longrightarrow> storeInv (tryPatterns ms bd)"
  by (induction ms bd rule: tryPatterns.induct)
     (simp_all add: storeInv_recordTrackedBet valid_amount_positive)

lemma storeInv_onLogs: "storeInv bd \<Longrightarrow> storeInv (onLogs err logs bd)"
  unfolding onLogs_def by (auto intro: fold_invariant storeInv_tryPatterns)

text \<open>An increase seen by the polling path is positive.\<close>

lemma increaseSol_eq:
  "increaseSol currentDeployed lastSeen = Fin (real (currentDeployed - lastSeen) / 100000000000)"
  by (simp add: increaseSol_def Number_def)

lemma polled_positive: "lastSeen < currentDeployed \<Longrightarrow> positive (increaseSol currentDeployed lastSeen)"
  by (simp add: increaseSol_eq positive_def js_gt_def)

lemma storeInv_pollSquare:
  "storeInv (fst st) \<Longrightarrow> i < 25 \<Longrightarrow> storeInv (fst (pollSquare rnd i st))"
  by (simp add: pollSquare_def Let_def storeInv_recordPolledBet polled_positive)

lemma storeInv_pollRoundAccount:
  assumes "storeInv (betData t)"
  shows "storeInv (betData (pollRoundAccount fetched t))"
proof (cases fetched)
  case None
  with assms show ?thesis by (simp add: pollRoundAccount_def)
next
  case (Some rnd)
  have "storeInv (fst (fold (pollSquare rnd) [0..<25] (betData t, lastSeenDeployed t)))"
    by (rule fold_invariant [where P = "\<lambda>st. storeInv (fst st)"])
       (simp_all add: storeInv_pollSquare assms)
  with Some show ?thesis by (simp add: pollRoundAccount_def Let_def)
qed

lemma storeInv_applyEvent: "storeInv (betData t) \<Longrightarrow> storeInv (betData (applyEvent ev t))"
  by (cases ev)
     (simp_all add: storeInv_onLogs storeInv_pollRoundAccount startBetTracking_def storeInv_empty)

lemma storeInv_runTracker: "storeInv (betData (runTracker evs))"
  unfolding runTracker_def
  by (rule fold_invariant [where P = "\<lambda>t. storeInv (betData t)"])
     (simp_all add: storeInv_applyEvent initialTracker_def storeInv_empty)

subsection \<open>Ranks\<close>

lemma rank0_is_max:
  assumes inv: "storeInv bd" and ne: "allBets bd \<noteq> []"
  shows "getNthHighestBet 0 bd = getMaxBet bd"
proof -
  let ?s = "js_sort (\<lambda>a b. js_sub b a) (allBets bd)"
  let ?m = "maxBetPerSquare bd"
  have pos: "\<forall>x\<in>set (allBets bd). positive x" using inv by (simp add: storeInv_def)
  have nn: "NaN \<notin> set ?s" using pos by (auto simp: set_js_sort dest: positive_not_NaN)
  have desc: "descending ?s" using pos by (rule descending_js_sort)
  have sne: "?s \<noteq> []" using ne length_js_sort [of "\<lambda>a b. js_sub b a" "allBets bd"] by auto
  have r0: "getNthHighestBet 0 bd = ?s ! 0" using ne by (simp add: getNthHighestBet_def)
  have r0_in: "?s ! 0 \<in> set (allBets bd)"
    using sne set_js_sort [of "\<lambda>a b. js_sub b a" "allBets bd"] nth_mem [of 0 ?s] by auto
  have r0_ub: "js_le x (?s ! 0)" if "x \<in> set (allBets bd)" for x
    using descending_first [OF desc nn] that by (simp add: set_js_sort)
  have mnn: "NaN \<notin> set ?m"
    using inv by (auto simp: in_set_conv_nth storeInv_def dest: storeInv_not_NaN [OF inv])
  have len: "length ?m = 25" using inv by (simp add: storeInv_def)
  from foldl_Math_max [of NegInfinity ?m] mnn
  have M: "getMaxBet bd \<in> insert NegInfinity (set ?m)"
          "\<forall>x\<in>set ?m. js_le x (getMaxBet bd)"
    by (simp_all add: getMaxBet_def Math_max_list_def)
  obtain i where i: "i < 25" "js_le (?s ! 0) (?m ! i)"
    using inv r0_in by (auto simp: storeInv_def)
  have le1: "js_le (?s ! 0) (getMaxBet bd)"
    using i M(2) len by (auto intro: js_le_trans [OF i(2)])
  have "positive (?s ! 0)" using pos r0_in by simp
  with le1 have mpos: "positive (getMaxBet bd)"
    by (cases "getMaxBet bd") (auto simp: positive_cases js_le_def)
  then have "getMaxBet bd \<noteq> NegInfinity" "getMaxBet bd \<noteq> Fin 0"
    by (auto simp: positive_cases)
  with M(1) obtain j where j: "j < 25" "getMaxBet bd = ?m ! j"
    using len by (auto simp: in_set_conv_nth)
  with inv \<open>getMaxBet bd \<noteq> Fin 0\<close> have "getMaxBet bd \<in> set (allBets bd)"
    by (auto simp: storeInv_def)
  then have "js_le (getMaxBet bd) (?s ! 0)" by (rule r0_ub)
  with le1 show ?thesis by (simp add: r0 js_le_antisym)
qed

lemma rank_beyond_is_min:
  assumes inv: "storeInv bd" and ne: "allBets bd \<noteq> []" and n: "length (allBets bd) \<le> n"
  shows "getNthHighestBet n bd \<in> set (allBets bd) \<and>
         (\<forall>x\<in>set (allBets bd). js_le (getNthHighestBet n bd) x)"
proof -
  let ?s = "js_sort (\<lambda>a b. js_sub b a) (allBets bd)"
  have pos: "\<forall>x\<in>set (allBets bd). positive x" using inv by (simp add: storeInv_def)
  have nn: "NaN \<notin> set ?s" using pos by (auto simp: set_js_sort dest: positive_not_NaN)
  have desc: "descending ?s" using pos by (rule descending_js_sort)
  have len: "length ?s = length (allBets bd)" by (rule length_js_sort)
  have "min n (length ?s - 1) = length ?s - 1"
    using n len by simp
  then have r: "getNthHighestBet n bd = ?s ! (length ?s - 1)"
    using ne by (simp add: getNthHighestBet_def Let_def)
  have "?s ! (length ?s - 1) \<in> set ?s" using ne len by (intro nth_mem) auto
  then have 1: "getNthHighestBet n bd \<in> set (allBets bd)" by (simp add: r set_js_sort)
  have 2: "js_le (getNthHighestBet n bd) x" if "x \<in> set (allBets bd)" for x
    using descending_last [OF desc nn] that by (simp add: r set_js_sort)
  from 1 2 show ?thesis by blast
qed

text \<open>
  C5. In every state of the bet data that the tracker can reach: when there are recorded
  samples, rank 0 is the overall maximum, and every rank \<open>n\<close> at or beyond the number of
  samples reads the last position of the sorted samples, which holds the smallest recorded
  sample; when there are no samples, every rank is 0.
\<close>

theorem rank_of_samples:
  "(allBets (betData (runTracker evs)) \<noteq> [] \<longrightarrow>
      getNthHighestBet 0 (betData (runTracker evs)) = getMaxBet (betData (runTracker evs)) \<and>
      (\<forall>n\<ge>length (allBets (betData (runTracker evs))).
         getNthHighestBet n (betData (runTracker evs)) \<in> set (allBets (betData (runTracker evs))) \<and>
         (\<forall>x\<in>set (allBets (betData (runTracker evs))).
            js_le (getNthHighestBet n (betData (runTracker evs))) x))) \<and>
   (allBets (betData (runTracker evs)) = [] \<longrightarrow>
      (\<forall>n. getNthHighestBet n (betData (runTracker evs)) = Fin 0))"
proof -
  let ?bd = "betData (runTracker evs)"
  have inv: "storeInv ?bd" by (rule storeInv_runTracker)
  have "getNthHighestBet 0 ?bd = getMaxBet ?bd" if "allBets ?bd \<noteq> []"
    using inv that by (rule rank0_is_max)
  moreover have "getNthHighestBet n ?bd \<in> set (allBets ?bd) \<and>
                 (\<forall>x\<in>set (allBets ?bd). js_le (getNthHighestBet n ?bd) x)"
    if "allBets ?bd \<noteq> []" "length (allBets ?bd) \<le> n" for n
    using inv that by (rule rank_beyond_is_min)
  moreover have "getNthHighestBet n ?bd = Fin 0" if "allBets ?bd = []" for n
    using that by (simp add: getNthHighestBet_def)
  ultimately show ?thesis by blast
qed

theorem rank_of_samples_witness:
  "allBets (betData (runTracker
      [StartTracking 7, Notification False [[None, Some (Fin 3)], [Some (Fin 7)]],
       PollTick None])) = [Fin 3, Fin 7]
   \<and> getNthHighestBet 0 (betData (runTracker
      [StartTracking 7, Notification False [[None, Some (Fin 3)], [Some (Fin 7)]],
       PollTick None]))
     = getMaxBet (betData (runTracker
      [StartTracking 7, Notification False [[None, Some (Fin 3)], [Some (Fin 7)]],
       PollTick None]))
   \<and> js_le (getNthHighestBet 2 (betData (runTracker
      [StartTracking 7, Notification False [[None, Some (Fin 3)], [Some (Fin 7)]],
       PollTick None]))) (Fin 3)"
  using rank_of_samples
    [of "[StartTracking 7, Notification False [[None, Some (Fin 3)], [Some (Fin 7)]], PollTick None]"]
  by (simp add: runTracker_def startBetTracking_def initialTracker_def onLogs_def isNaN_def
      js_le_def recordTrackedBet_def pollRoundAccount_def emptyBetData_def)

subsection \<open>A tick of the polling path\<close>

lemma pollSquare_unfold:
  "pollSquare rnd i (bd, ls) =
     (if ls ! i < deployed rnd ! i
      then (recordPolledBet i (increaseSol (deployed rnd ! i) (ls ! i)) bd,
            ls[i := deployed rnd ! i])
      else (bd, ls))"
  by (simp add: pollSquare_def Let_def)

lemma poll_fold:
  assumes "n \<le> length ls" and "n \<le> length (maxBetPerSquare bd)"
  shows "\<exists>bd' ls'. fold (pollSquare rnd) [0..<n] (bd, ls) = (bd', ls') \<and>
     length ls' = length ls \<and>
     (\<forall>i<length ls. ls' ! i = (if i < n \<and> ls ! i < deployed rnd ! i then deployed rnd ! i else ls ! i)) \<and>
     allBets bd' = allBets bd @
        map (\<lambda>i. increaseSol (deployed rnd ! i) (ls ! i))
            (filter (\<lambda>i. ls ! i < deployed rnd ! i) [0..<n]) \<and>
     totalBets bd' = totalBets bd \<and>
     length (maxBetPerSquare bd') = length (maxBetPerSquare bd) \<and>
     (\<forall>i<length (maxBetPerSquare bd). maxBetPerSquare bd' ! i =
        (if i < n \<and> ls ! i < deployed rnd ! i \<and>
            js_gt (increaseSol (deployed rnd ! i) (ls ! i)) (maxBetPerSquare bd ! i)
         then increaseSol (deployed rnd ! i) (ls ! i) else maxBetPerSquare bd ! i))"
  using assms
proof (induction n)
  case 0
  then show ?case by simp
next
  case (Suc n)
  then obtain bd' ls' where st: "fold (pollSquare rnd) [0..<n] (bd, ls) = (bd', ls')"
    and len: "length ls' = length ls"
    and cur: "\<forall>i<length ls. ls' ! i = (if i < n \<and> ls ! i < deployed rnd ! i then deployed rnd ! i else ls ! i)"
    and bets: "allBets bd' = allBets bd @
        map (\<lambda>i. increaseSol (deployed rnd ! i) (ls ! i))
            (filter (\<lambda>i. ls ! i < deployed rnd ! i) [0..<n])"
    and tot: "totalBets bd' = totalBets bd"
    and mlen: "length (maxBetPerSquare bd') = length (maxBetPerSquare bd)"
    and mx: "\<forall>i<length (maxBetPerSquare bd). maxBetPerSquare bd' ! i =
        (if i < n \<and> ls ! i < deployed rnd ! i \<and>
            js_gt (increaseSol (deployed rnd ! i) (ls ! i)) (maxBetPerSquare bd ! i)
         then increaseSol (deployed rnd ! i) (ls ! i) else maxBetPerSquare bd ! i)"
    by auto
  from Suc.prems have n: "n < length ls" "n < length (maxBetPerSquare bd)" by auto
  have cur': "ls' ! i = (if i < n \<and> ls ! i < deployed rnd ! i then deployed rnd ! i else ls ! i)"
    if "i < length ls" for i using cur that by blast
  have mx': "maxBetPerSquare bd' ! i =
        (if i < n \<and> ls ! i < deployed rnd ! i \<and>
            js_gt (increaseSol (deployed rnd ! i) (ls ! i)) (maxBetPerSquare bd ! i)
         then increaseSol (deployed rnd ! i) (ls ! i) else maxBetPerSquare bd ! i)"
    if "i < length (maxBetPerSquare bd)" for i using mx that by blast
  have lsn: "ls' ! n = ls ! n" using cur n by simp
  have mn: "maxBetPerSquare bd' ! n = maxBetPerSquare bd ! n" using mx n by simp
  show ?case
  proof (cases "ls ! n < deployed rnd ! n")
    case True
    let ?a = "increaseSol (deployed rnd ! n) (ls ! n)"
    have "fold (pollSquare rnd) [0..<Suc n] (bd, ls) =
            (recordPolledBet n ?a bd', ls'[n := deployed rnd ! n])"
      using True by (simp add: st pollSquare_unfold lsn)
    moreover have "\<forall>i<length ls. ls'[n := deployed rnd ! n] ! i =
        (if i < Suc n \<and> ls ! i < deployed rnd ! i then deployed rnd ! i else ls ! i)"
    proof (intro allI impI)
      fix i assume i: "i < length ls"
      show "ls'[n := deployed rnd ! n] ! i =
        (if i < Suc n \<and> ls ! i < deployed rnd ! i then deployed rnd ! i else ls ! i)"
        using True i len by (cases "i = n") (simp_all add: cur' less_Suc_eq)
    qed
    moreover have "allBets (recordPolledBet n ?a bd') = allBets bd @
        map (\<lambda>i. increaseSol (deployed rnd ! i) (ls ! i))
            (filter (\<lambda>i. ls ! i < deployed rnd ! i) [0..<Suc n])"
      using True by (simp add: recordPolledBet_def bets)
    moreover have "totalBets (recordPolledBet n ?a bd') = totalBets bd"
      by (simp add: recordPolledBet_def tot)
    moreover have "length (maxBetPerSquare (recordPolledBet n ?a bd')) = length (maxBetPerSquare bd)"
      by (simp add: recordPolledBet_def mlen)
    moreover have "\<forall>i<length (maxBetPerSquare bd). maxBetPerSquare (recordPolledBet n ?a bd') ! i =
        (if i < Suc n \<and> ls ! i < deployed rnd ! i \<and>
            js_gt (increaseSol (deployed rnd ! i) (ls ! i)) (maxBetPerSquare bd ! i)
         then increaseSol (deployed rnd ! i) (ls ! i) else maxBetPerSquare bd ! i)"
    proof (intro allI impI)
      fix i assume i: "i < length (maxBetPerSquare bd)"
      show "maxBetPerSquare (recordPolledBet n ?a bd') ! i =
        (if i < Suc n \<and> ls ! i < deployed rnd ! i \<and>
            js_gt (increaseSol (deployed rnd ! i) (ls ! i)) (maxBetPerSquare bd ! i)
         then increaseSol (deployed rnd ! i) (ls ! i) else maxBetPerSquare bd ! i)"
        using True i mlen mn by (cases "i = n") (simp_all add: recordPolledBet_def mx' less_Suc_eq)
    qed
    ultimately show ?thesis using len by simp
  next
    case False
    have "fold (pollSquare rnd) [0..<Suc n] (bd, ls) = (bd', ls')"
      using False by (simp add: st pollSquare_unfold lsn)
    moreover have "\<forall>i<length ls. ls' ! i =
        (if i < Suc n \<and> ls ! i < deployed rnd ! i then deployed rnd ! i else ls ! i)"
    proof (intro allI impI)
      fix i assume i: "i < length ls"
      show "ls' ! i =
        (if i < Suc n \<and> ls ! i < deployed rnd ! i then deployed rnd ! i else ls ! i)"
        using False i by (cases "i = n") (simp_all add: cur' less_Suc_eq)
    qed
    moreover have "allBets bd' = allBets bd @
        map (\<lambda>i. increaseSol (deployed rnd ! i) (ls ! i))
            (filter (\<lambda>i. ls ! i < deployed rnd ! i) [0..<Suc n])"
      using False by (simp add: bets)
    moreover have "\<forall>i<length (maxBetPerSquare bd). maxBetPerSquare bd' ! i =
        (if i < Suc n \<and> ls ! i < deployed rnd ! i \<and>
            js_gt (increaseSol (deployed rnd ! i) (ls ! i)) (maxBetPerSquare bd ! i)
         then increaseSol (deployed rnd ! i) (ls ! i) else maxBetPerSquare bd ! i)"
    proof (intro allI impI)
      fix i assume i: "i < length (maxBetPerSquare bd)"
      show "maxBetPerSquare bd' ! i =
        (if i < Suc n \<and> ls ! i < deployed rnd ! i \<and>
            js_gt (increaseSol (deployed rnd ! i) (ls ! i)) (maxBetPerSquare bd ! i)
         then increaseSol (deployed rnd ! i) (ls ! i) else maxBetPerSquare bd ! i)"
        using False i by (cases "i = n") (simp_all add: mx' less_Suc_eq)
    qed
    ultimately show ?thesis using len tot mlen by simp
  qed
qed

lemma pollRoundAccount_effect:
  assumes "length (lastSeenDeployed t) = 25" and "length (maxBetPerSquare (betData t)) = 25"
  shows "allBets (betData (pollRoundAccount (Some rnd) t)) =
           allBets (betData t) @
           map (\<lambda>i. increaseSol (deployed rnd ! i) (lastSeenDeployed t ! i))
               (filter (\<lambda>i. lastSeenDeployed t ! i < deployed rnd ! i) [0..<25])"
    and "\<forall>i<25. lastSeenDeployed (pollRoundAccount (Some rnd) t) ! i =
           (if lastSeenDeployed t ! i < deployed rnd ! i then deployed rnd ! i
            else lastSeenDeployed t ! i)"
    and "\<forall>i<25. maxBetPerSquare (betData (pollRoundAccount (Some rnd) t)) ! i =
           (if lastSeenDeployed t ! i < deployed rnd ! i \<and>
               js_gt (increaseSol (deployed rnd ! i) (lastSeenDeployed t ! i))
                     (maxBetPerSquare (betData t) ! i)
            then increaseSol (deployed rnd ! i) (lastSeenDeployed t ! i)
            else maxBetPerSquare (betData t) ! i)"
    and "totalBets (betData (pollRoundAccount (Some rnd) t)) = totalBets (betData t)"
proof -
  from poll_fold [of 25 "lastSeenDeployed t" "betData t" rnd] assms
  obtain bd' ls' where st: "fold (pollSquare rnd) [0..<25] (betData t, lastSeenDeployed t) = (bd', ls')"
    and cur: "\<forall>i<25. ls' ! i = (if i < 25 \<and> lastSeenDeployed t ! i < deployed rnd ! i
                then deployed rnd ! i else lastSeenDeployed t ! i)"
    and bets: "allBets bd' = allBets (betData t) @
        map (\<lambda>i. increaseSol (deployed rnd ! i) (lastSeenDeployed t ! i))
            (filter (\<lambda>i. lastSeenDeployed t ! i < deployed rnd ! i) [0..<25])"
    and tot: "totalBets bd' = totalBets (betData t)"
    and mx: "\<forall>i<25. maxBetPerSquare bd' ! i =
        (if i < 25 \<and> lastSeenDeployed t ! i < deployed rnd ! i \<and>
            js_gt (increaseSol (deployed rnd ! i) (lastSeenDeployed t ! i)) (maxBetPerSquare (betData t) ! i)
         then increaseSol (deployed rnd ! i) (lastSeenDeployed t ! i) else maxBetPerSquare (betData t) ! i)"
    by auto
  have res: "betData (pollRoundAccount (Some rnd) t) = bd'"
            "lastSeenDeployed (pollRoundAccount (Some rnd) t) = ls'"
    by (simp_all add: pollRoundAccount_def Let_def st)
  show "allBets (betData (pollRoundAccount (Some rnd) t)) =
           allBets (betData t) @
           map (\<lambda>i. increaseSol (deployed rnd ! i) (lastSeenDeployed t ! i))
               (filter (\<lambda>i. lastSeenDeployed t ! i < deployed rnd ! i) [0..<25])"
    by (simp only: res bets)
  show "\<forall>i<25. lastSeenDeployed (pollRoundAccount (Some rnd) t) ! i =
           (if lastSeenDeployed t ! i < deployed rnd ! i then deployed rnd ! i
            else lastSeenDeployed t ! i)"
    using cur by (simp add: res)
  show "\<forall>i<25. maxBetPerSquare (betData (pollRoundAccount (Some rnd) t)) ! i =
           (if lastSeenDeployed t ! i < deployed rnd ! i \<and>
               js_gt (increaseSol (deployed rnd ! i) (lastSeenDeployed t ! i))
                     (maxBetPerSquare (betData t) ! i)
            then increaseSol (deployed rnd ! i) (lastSeenDeployed t ! i)
            else maxBetPerSquare (betData t) ! i)"
    using mx by (simp add: res)
  show "totalBets (betData (pollRoundAccount (Some rnd) t)) = totalBets (betData t)"
    by (simp only: res tot)
qed

text \<open>
  C2, as the code has it. On a poll tick whose fetch succeeds, for each of the 25 slots
  in order: when the fetched total exceeds the cursor's value, exactly one sample is
  appended, the difference converted by the divisor of the polling path (it raises the
  slot's maximum when it is larger), and the cursor takes the fetched total; when the
  fetched total is less than or equal to the cursor's value, no sample is recorded and
  the cursor of that slot keeps its value. A tick whose fetch fails changes nothing.
\<close>

theorem poll_tick_effect:
  assumes "length (lastSeenDeployed t) = 25" and "length (maxBetPerSquare (betData t)) = 25"
  shows "allBets (betData (pollRoundAccount (Some rnd) t)) =
           allBets (betData t) @
           map (\<lambda>i. increaseSol (deployed rnd ! i) (lastSeenDeployed t ! i))
               (filter (\<lambda>i. lastSeenDeployed t ! i < deployed rnd ! i) [0..<25])
         \<and> (\<forall>i<25. lastSeenDeployed (pollRoundAccount (Some rnd) t) ! i =
               (if lastSeenDeployed t ! i < deployed rnd ! i then deployed rnd ! i
                else lastSeenDeployed t ! i))
         \<and> (\<forall>i<25. maxBetPerSquare (betData (pollRoundAccount (Some rnd) t)) ! i =
               (if lastSeenDeployed t ! i < deployed rnd ! i \<and>
                   js_gt (increaseSol (deployed rnd ! i) (lastSeenDeployed t ! i))
                         (maxBetPerSquare (betData t) ! i)
                then increaseSol (deployed rnd ! i) (lastSeenDeployed t ! i)
                else maxBetPerSquare (betData t) ! i))
         \<and> (\<forall>i<25. lastSeenDeployed t ! i < deployed rnd ! i \<longrightarrow>
               positive (increaseSol (deployed rnd ! i) (lastSeenDeployed t ! i)))
         \<and> pollRoundAccount None t = t"
  using pollRoundAccount_effect [OF assms, of rnd]
  by (simp add: polled_positive pollRoundAccount_def)

theorem poll_tick_effect_witness:
  "lastSeenDeployed (pollRoundAccount
        (Some \<lparr>deployed = 15 # 3 # replicate 23 0, count = 1 # 1 # replicate 23 0, totalDeployed = 18\<rparr>)
        (initialTracker\<lparr>lastSeenDeployed := 10 # 7 # replicate 23 0\<rparr>)) ! 0 = 15
   \<and> lastSeenDeployed (pollRoundAccount
        (Some \<lparr>deployed = 15 # 3 # replicate 23 0, count = 1 # 1 # replicate 23 0, totalDeployed = 18\<rparr>)
        (initialTracker\<lparr>lastSeenDeployed := 10 # 7 # replicate 23 0\<rparr>)) ! 1 = 7
   \<and> maxBetPerSquare (betData (pollRoundAccount
        (Some \<lparr>deployed = 15 # 3 # replicate 23 0, count = 1 # 1 # replicate 23 0, totalDeployed = 18\<rparr>)
        (initialTracker\<lparr>lastSeenDeployed := 10 # 7 # replicate 23 0\<rparr>))) ! 0
       = Fin (5 / 100000000000)"
proof -
  let ?t = "initialTracker\<lparr>lastSeenDeployed := 10 # 7 # replicate 23 0\<rparr>"
  let ?r = "\<lparr>deployed = 15 # 3 # replicate 23 0, count = 1 # 1 # replicate 23 0, totalDeployed = 18\<rparr>"
  have l: "length (lastSeenDeployed ?t) = 25" "length (maxBetPerSquare (betData ?t)) = 25"
    by (simp_all add: initialTracker_def emptyBetData_def)
  from poll_tick_effect [OF l, of ?r]
  have cur: "\<forall>i<25. lastSeenDeployed (pollRoundAccount (Some ?r) ?t) ! i =
               (if lastSeenDeployed ?t ! i < deployed ?r ! i then deployed ?r ! i
                else lastSeenDeployed ?t ! i)"
    and mx: "\<forall>i<25. maxBetPerSquare (betData (pollRoundAccount (Some ?r) ?t)) ! i =
               (if lastSeenDeployed ?t ! i < deployed ?r ! i \<and>
                   js_gt (increaseSol (deployed ?r ! i) (lastSeenDeployed ?t ! i))
                         (maxBetPerSquare (betData ?t) ! i)
                then increaseSol (deployed ?r ! i) (lastSeenDeployed ?t ! i)
                else maxBetPerSquare (betData ?t) ! i)"
    by blast+
  from cur have "lastSeenDeployed (pollRoundAccount (Some ?r) ?t) ! 0 = 15"
    by (elim allE [of _ 0]) simp
  moreover from cur have "lastSeenDeployed (pollRoundAccount (Some ?r) ?t) ! 1 = 7"
    by (elim allE [of _ 1]) simp
  moreover from mx have "maxBetPerSquare (betData (pollRoundAccount (Some ?r) ?t)) ! 0
       = Fin (5 / 100000000000)"
    by (elim allE [of _ 0])
       (simp add: increaseSol_eq initialTracker_def emptyBetData_def js_gt_def)
  ultimately show ?thesis by blast
qed

text \<open>
  The claim as stated fails twice. With the cursor at 10 and a fetched total of 5 the
  cursor stays at 10; and with the cursor at 10 and a fetched total of 15 the recorded
  sample is \<open>5 / 1e11\<close>, not 5.
\<close>

theorem poll_tick_counterexample:
  "lastSeenDeployed (pollRoundAccount
        (Some \<lparr>deployed = 5 # replicate 24 0, count = 1 # replicate 24 0, totalDeployed = 5\<rparr>)
        (initialTracker\<lparr>lastSeenDeployed := 10 # replicate 24 0\<rparr>)) ! 0 = 10
   \<and> allBets (betData (pollRoundAccount
        (Some \<lparr>deployed = 15 # replicate 24 0, count = 1 # replicate 24 0, totalDeployed = 15\<rparr>)
        (initialTracker\<lparr>lastSeenDeployed := 10 # replicate 24 0\<rparr>))) = [Fin (5 / 100000000000)]"
  by code_simp

subsection \<open>Amounts that the log handler drops\<close>

lemma unusable_iff: "unusable a \<longleftrightarrow> isNaN a \<or> js_le a (Fin 0)"
  by (cases a) (auto simp: unusable_def isNaN_def js_le_def)

lemma tryPatterns_unusable:
  "unusable a \<Longrightarrow> tryPatterns (pre @ Some a # post) bd = tryPatterns (pre @ None # post) bd"
  by (induction pre bd rule: tryPatterns.induct) (simp_all add: unusable_iff)

lemma tryPatterns_all_unusable:
  "\<forall>a. Some a \<in> set ms \<longrightarrow> unusable a \<Longrightarrow> tryPatterns ms bd = bd"
  by (induction ms bd rule: tryPatterns.induct) (auto simp: unusable_iff)

lemma fold_tryPatterns_all_unusable:
  "\<forall>ms\<in>set logs. \<forall>a. Some a \<in> set ms \<longrightarrow> unusable a \<Longrightarrow> fold tryPatterns logs bd = bd"
  by (induction logs) (simp_all add: tryPatterns_all_unusable)

text \<open>
  What the handler does drop. An extracted amount that is NaN or not greater than zero
  (minus infinity included) is dropped: the handler goes on exactly as if the pattern had
  not matched, and a notification all of whose extracted amounts are of this kind leaves
  the maxima, the sample list and the sample count as they were.
\<close>

lemma unusable_amounts_dropped:
  "(unusable a \<longrightarrow>
      tryPatterns (pre @ Some a # post) bd = tryPatterns (pre @ None # post) bd) \<and>
   ((\<forall>ms\<in>set logs. \<forall>a. Some a \<in> set ms \<longrightarrow> unusable a) \<longrightarrow> onLogs err logs bd = bd)"
  by (simp add: tryPatterns_unusable fold_tryPatterns_all_unusable onLogs_def)

lemma unusable_amounts_dropped_example:
  "tryPatterns ([None] @ Some (Fin 0) # [Some (Fin 2)]) emptyBetData =
     tryPatterns ([None] @ None # [Some (Fin 2)]) emptyBetData
   \<and> onLogs False [[Some NaN, Some (Fin (- 1))], [Some NegInfinity, None]] emptyBetData =
     emptyBetData"
  using unusable_amounts_dropped [of "Fin 0" "[None]" "[Some (Fin 2)]" emptyBetData
          "[[Some NaN, Some (Fin (- 1))], [Some NegInfinity, None]]" False]
        unusable_amounts_dropped [of NaN "[]" "[]" emptyBetData
          "[[Some NaN, Some (Fin (- 1))], [Some NegInfinity, None]]" False]
  by (simp add: unusable_def)

text \<open>
  C9 on the code. Recording has no failing outcome, and amounts that are NaN or not
  greater than zero are dropped without a change of the maxima, the sample list or the
  sample count. An infinite amount is not dropped: the check of the handler is
  \<open>isNaN(amountSol) || amountSol <= 0\<close>, and \<open>parseFloat\<close> of a run of digits beyond
  the range of a double is \<open>Infinity\<close>, which passes the check. The handler then counts
  it, appends it to the sample list and makes it the maximum of every square.
\<close>

theorem infinite_amount_recorded:
  "totalBets (onLogs False [[Some PosInfinity]] emptyBetData) = 1
   \<and> allBets (onLogs False [[Some PosInfinity]] emptyBetData) = [PosInfinity]
   \<and> maxBetPerSquare (onLogs False [[Some PosInfinity]] emptyBetData) = replicate 25 PosInfinity"
  by code_simp

section \<open>The bid estimator\<close>

lemma Math_max_Fin: "Math_max (Fin a) (Fin b) = Fin (max a b)"
  by (auto simp: Math_max_def max_def)

lemma Math_min_Fin: "Math_min (Fin a) (Fin b) = Fin (min a b)"
  by (auto simp: Math_min_def min_def)

lemma topSquareStep_unfold:
  "topSquareStep rnd i (Fin (real D / 1000000000), idx) =
     (if D < deployed rnd ! i then (Fin (real (deployed rnd ! i) / 1000000000), i)
      else (Fin (real D / 1000000000), idx))"
  by (simp add: topSquareStep_def Let_def Number_def js_gt_def)

lemma topSquare_fold:
  "\<exists>D idx. fold (topSquareStep rnd) [0..<n] (Fin 0, 0) = (Fin (real D / 1000000000), idx) \<and>
     (\<forall>j<n. deployed rnd ! j \<le> D) \<and>
     ((D = 0 \<and> idx = 0) \<or> (idx < n \<and> D = deployed rnd ! idx \<and> (\<forall>j<idx. deployed rnd ! j < D)))"
proof (induction n)
  case 0
  have "fold (topSquareStep rnd) [0..<0] (Fin 0, 0) = (Fin (real (0::nat) / 1000000000), 0)"
    by simp
  then show ?case by blast
next
  case (Suc n)
  then obtain D idx where st: "fold (topSquareStep rnd) [0..<n] (Fin 0, 0) = (Fin (real D / 1000000000), idx)"
    and ub: "\<forall>j<n. deployed rnd ! j \<le> D"
    and first: "(D = 0 \<and> idx = 0) \<or> (idx < n \<and> D = deployed rnd ! idx \<and> (\<forall>j<idx. deployed rnd ! j < D))"
    by blast
  show ?case
  proof (cases "D < deployed rnd ! n")
    case True
    have "fold (topSquareStep rnd) [0..<Suc n] (Fin 0, 0) = (Fin (real (deployed rnd ! n) / 1000000000), n)"
      using True by (simp add: st topSquareStep_unfold)
    moreover have "\<forall>j<Suc n. deployed rnd ! j \<le> deployed rnd ! n"
      using ub True by (auto simp: less_Suc_eq)
    moreover have "\<forall>j<n. deployed rnd ! j < deployed rnd ! n"
      using ub True by fastforce
    ultimately show ?thesis by blast
  next
    case False
    have "fold (topSquareStep rnd) [0..<Suc n] (Fin 0, 0) = (Fin (real D / 1000000000), idx)"
      using False by (simp add: st topSquareStep_unfold)
    moreover have "\<forall>j<Suc n. deployed rnd ! j \<le> D"
      using ub False by (auto simp: less_Suc_eq)
    moreover have "(D = 0 \<and> idx = 0) \<or> (idx < Suc n \<and> D = deployed rnd ! idx \<and> (\<forall>j<idx. deployed rnd ! j < D))"
      using first by auto
    ultimately show ?thesis by blast
  qed
qed

lemma topSquare_index:
  "snd (topSquare rnd) < 25 \<and>
   (\<forall>j<25. deployed rnd ! j \<le> deployed rnd ! snd (topSquare rnd)) \<and>
   (\<forall>j<snd (topSquare rnd). deployed rnd ! j < deployed rnd ! snd (topSquare rnd))"
proof -
  from topSquare_fold [of rnd 25]
  obtain D idx where st: "topSquare rnd = (Fin (real D / 1000000000), idx)"
    and ub: "\<forall>j<25. deployed rnd ! j \<le> D"
    and first: "(D = 0 \<and> idx = 0) \<or> (idx < 25 \<and> D = deployed rnd ! idx \<and> (\<forall>j<idx. deployed rnd ! j < D))"
    unfolding topSquare_def by blast
  from first show ?thesis
  proof
    assume z: "D = 0 \<and> idx = 0"
    with ub have "deployed rnd ! 0 = 0" by simp
    with z ub show ?thesis by (simp add: st)
  next
    assume "idx < 25 \<and> D = deployed rnd ! idx \<and> (\<forall>j<idx. deployed rnd ! j < D)"
    with ub show ?thesis by (auto simp: st)
  qed
qed

lemma calculateTopBet_cases:
  assumes "minBetPerSquare cfg = Fin m"
  shows "count rnd ! snd (topSquare rnd) = 1 \<Longrightarrow>
           calculateTopBet cfg rnd = Fin (real (deployed rnd ! snd (topSquare rnd)) / 1000000000)"
    and "1 < count rnd ! snd (topSquare rnd) \<Longrightarrow>
           calculateTopBet cfg rnd =
             Fin (max (real (deployed rnd ! snd (topSquare rnd)) / 1000000000
                         / real (count rnd ! snd (topSquare rnd)))
                      (real (deployed rnd ! snd (topSquare rnd)) / 1000000000
                         - (real (count rnd ! snd (topSquare rnd)) - 1) * max (1 / 1000) m))"
  using assms
  by (simp_all add: calculateTopBet_def Let_def Number_def js_gt_def js_sub_def Math_max_Fin)

text \<open>
  C7, as the code has it. On a snapshot, the max strategy selects the slot with the highest
  total stake (the first one when several slots tie). When that slot has exactly one
  participant the target is the slot's full total stake; when it has more than one, the
  target is the larger of the average stake \<open>totalStaked / participantCount\<close> and
  \<open>totalStaked - (participantCount - 1) * minimumStake\<close>, where the minimum stake
  that the code assumes for the other participants is the larger of 0.001 and the
  configured minimum bet, not the configured minimum bet itself. Stakes are in SOL, the
  deployed lamports divided by \<open>1e9\<close>.
\<close>

theorem top_bet_estimate:
  assumes "minBetPerSquare cfg = Fin m"
  shows "snd (topSquare rnd) < 25 \<and>
    (\<forall>j<25. deployed rnd ! j \<le> deployed rnd ! snd (topSquare rnd)) \<and>
    (\<forall>j<snd (topSquare rnd). deployed rnd ! j < deployed rnd ! snd (topSquare rnd)) \<and>
    (count rnd ! snd (topSquare rnd) = 1 \<longrightarrow>
       calculateTopBet cfg rnd = Fin (real (deployed rnd ! snd (topSquare rnd)) / 1000000000)) \<and>
    (1 < count rnd ! snd (topSquare rnd) \<longrightarrow>
       calculateTopBet cfg rnd =
         Fin (max (real (deployed rnd ! snd (topSquare rnd)) / 1000000000
                     / real (count rnd ! snd (topSquare rnd)))
                  (real (deployed rnd ! snd (topSquare rnd)) / 1000000000
                     - (real (count rnd ! snd (topSquare rnd)) - 1) * max (1 / 1000) m)))"
  using topSquare_index [of rnd] calculateTopBet_cases [OF assms, of rnd] by blast

lemma single_stake_top:
  assumes "\<forall>j<25. (x # replicate 24 0) ! j \<le> (x # replicate 24 0) ! k" and "k < 25" and "0 < (x::nat)"
  shows "k = 0"
proof (rule ccontr)
  assume "k \<noteq> 0"
  with assms(2) have "(x # replicate 24 0) ! k = 0" by (cases k) simp_all
  moreover from assms(1) have "(x # replicate 24 0) ! 0 \<le> (x # replicate 24 0) ! k"
    by (elim allE [of _ 0]) simp
  ultimately show False using assms(3) by simp
qed

lemma single_stake_topSquare:
  "snd (topSquare \<lparr>deployed = 100000000 # replicate 24 0, count = c # replicate 24 0,
                    totalDeployed = 100000000\<rparr>) = 0"
proof -
  let ?r = "\<lparr>deployed = 100000000 # replicate 24 0, count = c # replicate 24 0,
             totalDeployed = 100000000\<rparr>"
  from topSquare_index [of ?r]
  have a: "snd (topSquare ?r) < 25"
    and b: "\<forall>j<25. deployed ?r ! j \<le> deployed ?r ! snd (topSquare ?r)"
    by blast+
  show ?thesis
    using b a by (intro single_stake_top [of 100000000]) simp_all
qed

text \<open>
  The claim as stated, with the configured minimum bet as the minimum stake, fails for the
  default configuration, whose minimum bet is 0.0001: for 0.1 SOL from ten participants
  the claim's formula gives \<open>max(0.1 / 10, 0.1 - 9 * 0.0001) = 0.0991\<close>, and the code
  gives \<open>0.1 - 9 * 0.001 = 0.091\<close>.
\<close>

theorem top_bet_below_configured_minimum:
  "minBetPerSquare defaultConfig = Fin (1 / 10000)
   \<and> calculateTopBet defaultConfig
        \<lparr>deployed = 100000000 # replicate 24 0, count = 10 # replicate 24 0,
         totalDeployed = 100000000\<rparr> = Fin (91 / 1000)
   \<and> max ((1 / 10) / 10) (1 / 10 - (10 - 1) * (1 / 10000)) = (991 / 10000 :: real)"
proof -
  let ?r10 = "\<lparr>deployed = 100000000 # replicate 24 0, count = 10 # replicate 24 0,
       totalDeployed = 100000000\<rparr>"
  have m: "minBetPerSquare defaultConfig = Fin (1 / 10000)" by (simp add: defaultConfig_def)
  have k: "snd (topSquare ?r10) = 0" by (rule single_stake_topSquare)
  have "1 < count ?r10 ! snd (topSquare ?r10)" unfolding k by simp
  from calculateTopBet_cases(2) [OF m this]
  have "calculateTopBet defaultConfig ?r10 = Fin (91 / 1000)" unfolding k by simp
  moreover have "max ((1 / 10) / 10) (1 / 10 - (10 - 1) * (1 / 10000)) = (991 / 10000 :: real)"
    by simp
  ultimately show ?thesis using m by blast
qed

text \<open>
  The examples: 0.1 SOL from one participant gives 0.1; 0.1 SOL from ten participants
  gives \<open>0.1 - 9 * 0.001 = 0.091\<close> with a configured minimum of 0.001 and also with the
  default minimum of 0.0001, and \<open>0.1 - 9 * 0.002 = 0.082\<close> with a configured minimum of
  0.002.
\<close>

theorem top_bet_estimate_witness:
  "calculateTopBet defaultConfig
      \<lparr>deployed = 100000000 # replicate 24 0, count = 1 # replicate 24 0,
       totalDeployed = 100000000\<rparr> = Fin (1 / 10)
   \<and> calculateTopBet defaultConfig
      \<lparr>deployed = 100000000 # replicate 24 0, count = 10 # replicate 24 0,
       totalDeployed = 100000000\<rparr> = Fin (91 / 1000)
   \<and> calculateTopBet (defaultConfig\<lparr>minBetPerSquare := Fin (1 / 1000)\<rparr>)
      \<lparr>deployed = 100000000 # replicate 24 0, count = 10 # replicate 24 0,
       totalDeployed = 100000000\<rparr> = Fin (91 / 1000)
   \<and> calculateTopBet (defaultConfig\<lparr>minBetPerSquare := Fin (2 / 1000)\<rparr>)
      \<lparr>deployed = 100000000 # replicate 24 0, count = 10 # replicate 24 0,
       totalDeployed = 100000000\<rparr> = Fin (82 / 1000)"
proof -
  let ?cfg1 = "defaultConfig\<lparr>minBetPerSquare := Fin (1 / 1000)\<rparr>"
  let ?cfg2 = "defaultConfig\<lparr>minBetPerSquare := Fin (2 / 1000)\<rparr>"
  let ?r1 = "\<lparr>deployed = 100000000 # replicate 24 0, count = 1 # replicate 24 0,
       totalDeployed = 100000000\<rparr>"
  let ?r10 = "\<lparr>deployed = 100000000 # replicate 24 0, count = 10 # replicate 24 0,
       totalDeployed = 100000000\<rparr>"
  have m0: "minBetPerSquare defaultConfig = Fin (1 / 10000)" by (simp add: defaultConfig_def)
  have m1: "minBetPerSquare ?cfg1 = Fin (1 / 1000)" by simp
  have m2: "minBetPerSquare ?cfg2 = Fin (2 / 1000)" by simp
  have k1: "snd (topSquare ?r1) = 0" by (rule single_stake_topSquare)
  have k10: "snd (topSquare ?r10) = 0" by (rule single_stake_topSquare)
  from top_bet_estimate [OF m0, of ?r1]
  have c1: "count ?r1 ! snd (topSquare ?r1) = 1 \<longrightarrow>
       calculateTopBet defaultConfig ?r1 = Fin (real (deployed ?r1 ! snd (topSquare ?r1)) / 1000000000)"
    by blast
  from top_bet_estimate [OF m0, of ?r10]
  have c10: "1 < count ?r10 ! snd (topSquare ?r10) \<longrightarrow>
       calculateTopBet defaultConfig ?r10 =
         Fin (max (real (deployed ?r10 ! snd (topSquare ?r10)) / 1000000000
                     / real (count ?r10 ! snd (topSquare ?r10)))
                  (real (deployed ?r10 ! snd (topSquare ?r10)) / 1000000000
                     - (real (count ?r10 ! snd (topSquare ?r10)) - 1) * max (1 / 1000) (1 / 10000)))"
    by blast
  from top_bet_estimate [OF m1, of ?r10]
  have d10: "1 < count ?r10 ! snd (topSquare ?r10) \<longrightarrow>
       calculateTopBet ?cfg1 ?r10 =
         Fin (max (real (deployed ?r10 ! snd (topSquare ?r10)) / 1000000000
                     / real (count ?r10 ! snd (topSquare ?r10)))
                  (real (deployed ?r10 ! snd (topSquare ?r10)) / 1000000000
                     - (real (count ?r10 ! snd (topSquare ?r10)) - 1) * max (1 / 1000) (1 / 1000)))"
    by blast
  from top_bet_estimate [OF m2, of ?r10]
  have e10: "1 < count ?r10 ! snd (topSquare ?r10) \<longrightarrow>
       calculateTopBet ?cfg2 ?r10 =
         Fin (max (real (deployed ?r10 ! snd (topSquare ?r10)) / 1000000000
                     / real (count ?r10 ! snd (topSquare ?r10)))
                  (real (deployed ?r10 ! snd (topSquare ?r10)) / 1000000000
                     - (real (count ?r10 ! snd (topSquare ?r10)) - 1) * max (1 / 1000) (2 / 1000)))"
    by blast
  from c1 [unfolded k1] have "calculateTopBet defaultConfig ?r1 = Fin (1 / 10)" by simp
  moreover from c10 [unfolded k10] have "calculateTopBet defaultConfig ?r10 = Fin (91 / 1000)" by simp
  moreover from d10 [unfolded k10] have "calculateTopBet ?cfg1 ?r10 = Fin (91 / 1000)" by simp
  moreover from e10 [unfolded k10] have "calculateTopBet ?cfg2 ?r10 = Fin (82 / 1000)" by simp
  ultimately show ?thesis by blast
qed

lemma calculateOurBet_Fin:
  assumes "bufferPercent cfg = Fin b" and "minBetPerSquare cfg = Fin lo"
    and "config_maxBetPerSquare cfg = Fin hi"
  shows "calculateOurBet cfg (Fin T) = Fin (min (max (T * (1 + b / 100)) lo) hi)"
  using assms by (simp add: calculateOurBet_def Let_def Math_max_Fin Math_min_Fin)




section \<open>Samples of the polling path at bid time\<close>

lemma filter_single: "i < n \<Longrightarrow> filter (\<lambda>j. j = i) [0..<n] = [i]"
proof (induction n)
  case 0
  then show ?case by simp
next
  case (Suc n)
  show ?case
  proof (cases "i = n")
    case True
    have "filter (\<lambda>j. j = n) [0..<n] = []" by (auto simp: filter_empty_conv)
    with True show ?thesis by simp
  next
    case False
    with Suc have "filter (\<lambda>j. j = i) [0..<n] = [i]" by simp
    with False show ?thesis by simp
  qed
qed

lemma filter_single_stake:
  assumes "0 < (x::nat)" and "i < 25"
  shows "filter (\<lambda>j. replicate 25 0 ! j < (replicate 25 0)[i := x] ! j) [0..<25] = [i]"
proof -
  have "filter (\<lambda>j. replicate 25 0 ! j < (replicate 25 0)[i := x] ! j) [0..<25] =
        filter (\<lambda>j. j = i) [0..<25]"
    using assms by (intro filter_cong) (auto simp: nth_list_update)
  with assms(2) show ?thesis by (simp add: filter_single)
qed

lemma single_stake_round:
  fixes x :: nat and i :: nat and cfg :: Config
  defines "rnd \<equiv> \<lparr>deployed = (replicate 25 0)[i := x], count = (replicate 25 0)[i := 1], totalDeployed = x\<rparr>"
  assumes x: "0 < x" and i: "i < 25"
  shows "allBets (betData (pollRoundAccount (Some rnd) initialTracker)) = [increaseSol x 0]"
    and "totalBets (betData (pollRoundAccount (Some rnd) initialTracker)) = 0"
    and "getMaxBet (betData (pollRoundAccount (Some rnd) initialTracker)) = increaseSol x 0"
    and "calculateTopBet cfg rnd = Fin (real x / 1000000000)"
proof -
  let ?t = "pollRoundAccount (Some rnd) initialTracker"
  have l: "length (lastSeenDeployed initialTracker) = 25"
          "length (maxBetPerSquare (betData initialTracker)) = 25"
    by (simp_all add: initialTracker_def emptyBetData_def)
  have d: "deployed rnd = (replicate 25 0)[i := x]" "count rnd = (replicate 25 0)[i := 1]"
    by (simp_all add: rnd_def)
  have ls: "lastSeenDeployed initialTracker = replicate 25 0" by (simp add: initialTracker_def)
  show bets: "allBets (betData ?t) = [increaseSol x 0]"
    using pollRoundAccount_effect(1) [OF l, of rnd] i
    by (simp add: d ls filter_single_stake [OF x i]) (simp add: initialTracker_def emptyBetData_def)
  show "totalBets (betData ?t) = 0"
    using pollRoundAccount_effect(4) [OF l, of rnd] by (simp add: initialTracker_def emptyBetData_def)
  have run: "?t = runTracker [PollTick (Some rnd)]" by (simp add: runTracker_def)
  have inv: "storeInv (betData ?t)" unfolding run by (rule storeInv_runTracker)
  have "getMaxBet (betData ?t) = getNthHighestBet 0 (betData ?t)"
    using rank0_is_max [OF inv] bets by simp
  then show "getMaxBet (betData ?t) = increaseSol x 0"
    by (simp add: getNthHighestBet_def bets js_sort_def)
  from topSquare_index [of rnd]
  have k: "snd (topSquare rnd) < 25"
    and ub: "\<forall>j<25. deployed rnd ! j \<le> deployed rnd ! snd (topSquare rnd)" by blast+
  have "snd (topSquare rnd) = i"
  proof (rule ccontr)
    assume "snd (topSquare rnd) \<noteq> i"
    with k have "deployed rnd ! snd (topSquare rnd) = 0" by (simp add: d)
    moreover from ub i have "deployed rnd ! i \<le> deployed rnd ! snd (topSquare rnd)" by blast
    ultimately show False using x i by (simp add: d)
  qed
  then show "calculateTopBet cfg rnd = Fin (real x / 1000000000)"
    using i by (simp add: calculateTopBet_def Let_def d Number_def)
qed



text \<open>
  C3 on the code. The gate for the live data is \<open>totalBets > 0\<close>, and only the
  websocket path counts its bets: the polling path appends its samples without counting
  them. After a poll tick has recorded a stake of 5000000 lamports on slot 0, with no
  notification matched, the sample list holds one sample and still \<open>hasBetData\<close> is
  false: under the default configuration the bot bids 0.0055 from the snapshot, where the
  live data (an overall maximum of 0.00005) would give the minimum bet 0.0001.
\<close>

theorem polled_samples_not_consulted:
  "allBets (betData (pollRoundAccount
       (Some \<lparr>deployed = (replicate 25 0)[0 := 5000000], count = (replicate 25 0)[0 := 1],
              totalDeployed = 5000000\<rparr>) initialTracker)) = [Fin (1 / 20000)]
   \<and> \<not> hasBetData (betData (pollRoundAccount
       (Some \<lparr>deployed = (replicate 25 0)[0 := 5000000], count = (replicate 25 0)[0 := 1],
              totalDeployed = 5000000\<rparr>) initialTracker))
   \<and> betPerSquare defaultConfig
        (betData (pollRoundAccount
          (Some \<lparr>deployed = (replicate 25 0)[0 := 5000000], count = (replicate 25 0)[0 := 1],
                 totalDeployed = 5000000\<rparr>) initialTracker))
        (Some \<lparr>deployed = (replicate 25 0)[0 := 5000000], count = (replicate 25 0)[0 := 1],
               totalDeployed = 5000000\<rparr>) = Fin (11 / 2000)
   \<and> calculateOurBet defaultConfig
        (getMaxBet (betData (pollRoundAccount
          (Some \<lparr>deployed = (replicate 25 0)[0 := 5000000], count = (replicate 25 0)[0 := 1],
                 totalDeployed = 5000000\<rparr>) initialTracker))) = Fin (1 / 10000)"
proof -
  let ?r = "\<lparr>deployed = (replicate 25 0)[0 := 5000000], count = (replicate 25 0)[0 := 1],
              totalDeployed = 5000000\<rparr>"
  let ?bd = "betData (pollRoundAccount (Some ?r) initialTracker)"
  have x: "0 < (5000000::nat)" "(0::nat) < 25" by simp_all
  note s = single_stake_round(1-3) [OF x] single_stake_round(4) [OF x, of defaultConfig]
  have c: "bufferPercent defaultConfig = Fin 10" "minBetPerSquare defaultConfig = Fin (1 / 10000)"
    "config_maxBetPerSquare defaultConfig = Fin (1 / 100)"
    by (simp_all add: defaultConfig_def)
  have 1: "allBets ?bd = [Fin (1 / 20000)]" using s(1) by (simp add: increaseSol_eq)
  have 2: "\<not> hasBetData ?bd" using s(2) by (simp add: hasBetData_def)
  have 3: "betPerSquare defaultConfig ?bd (Some ?r) = Fin (11 / 2000)"
    using 2 s(4) by (simp add: betPerSquare_def Number_def js_gt_def calculateOurBet_Fin [OF c])
       (simp add: defaultConfig_def)
  have 4: "calculateOurBet defaultConfig (getMaxBet ?bd) = Fin (1 / 10000)"
    using s(3) by (simp add: increaseSol_eq calculateOurBet_Fin [OF c])
  from 1 2 3 4 show ?thesis by blast
qed


section \<open>The scheduler loop\<close>

lemma snipePhase_cases:
  "snipePhase cfg io board secs s = (s, []) \<or>
   (\<not> hasDeployedThisRound s \<and>
    snipePhase cfg io board secs s =
      (s\<lparr>hasDeployedThisRound := True\<rparr>,
       [DeployAttempt (roundId board) (betPerSquare cfg (io_betData io) (io_round io))]))"
  by (simp add: snipePhase_def Let_def)

lemma snipePhase_handled:
  "hasDeployedThisRound s \<Longrightarrow> snipePhase cfg io board secs s = (s, [])"
  by (simp add: snipePhase_def Let_def)

lemma snipePhase_lastRoundId: "lastRoundId (fst (snipePhase cfg io board secs s)) = lastRoundId s"
  by (simp add: snipePhase_def Let_def)

text \<open>An iteration on a board of round \<open>r\<close> attempts nothing, or one deploy that marks round \<open>r\<close> handled.\<close>

lemma loopIteration_cases:
  assumes "\<forall>b. io_board io = Some b \<longrightarrow> roundId b = r"
  shows "snd (loopIteration cfg io s) = [] \<or>
    (\<exists>bet. snd (loopIteration cfg io s) = [DeployAttempt r bet] \<and>
           lastRoundId (fst (loopIteration cfg io s)) = r \<and>
           hasDeployedThisRound (fst (loopIteration cfg io s)))"
proof (cases "io_board io")
  case None
  then show ?thesis by (simp add: loopIteration_def)
next
  case (Some board)
  with assms have r: "roundId board = r" by simp
  show ?thesis
  proof (cases "io_currentSlot io")
    case None
    with Some show ?thesis by (simp add: loopIteration_def)
  next
    case (Some currentSlot)
    note slot = this
    show ?thesis
    proof (cases "roundId board \<noteq> lastRoundId s")
      case True
      show ?thesis
      proof (cases "io_newRoundBalance io")
        case None
        with True slot \<open>io_board io = Some board\<close> show ?thesis
          by (simp add: loopIteration_def Let_def)
      next
        case (Some currentBalance)
        let ?s = "\<lparr>lastRoundId = roundId board,
                   hasDeployedThisRound = js_lt currentBalance (minWalletBalance cfg)\<rparr>"
        have eq: "loopIteration cfg io s = snipePhase cfg io board (secondsRemaining board currentSlot) ?s"
          using True slot Some \<open>io_board io = Some board\<close> by (simp add: loopIteration_def Let_def)
        from snipePhase_cases [of cfg io board "secondsRemaining board currentSlot" ?s]
        show ?thesis by (auto simp: eq r)
      qed
    next
      case False
      have eq: "loopIteration cfg io s = snipePhase cfg io board (secondsRemaining board currentSlot) s"
        using False slot \<open>io_board io = Some board\<close> by (simp add: loopIteration_def Let_def)
      from snipePhase_cases [of cfg io board "secondsRemaining board currentSlot" s] False
      show ?thesis by (auto simp: eq r)
    qed
  qed
qed

text \<open>Once round \<open>r\<close> is handled, an iteration on a board of round \<open>r\<close> changes nothing.\<close>

lemma loopIteration_handled:
  assumes "\<forall>b. io_board io = Some b \<longrightarrow> roundId b = r"
    and "lastRoundId s = r" and "hasDeployedThisRound s"
  shows "loopIteration cfg io s = (s, [])"
  using assms by (auto simp: loopIteration_def Let_def snipePhase_handled split: option.splits)

lemma runLoop_handled:
  assumes "\<forall>io\<in>set ios. \<forall>b. io_board io = Some b \<longrightarrow> roundId b = r"
    and "lastRoundId s = r" and "hasDeployedThisRound s"
  shows "runLoop cfg ios s = (s, [])"
  using assms
proof (induction ios)
  case Nil
  then show ?case by simp
next
  case (Cons io ios)
  then have "loopIteration cfg io s = (s, [])" by (intro loopIteration_handled) simp_all
  moreover from Cons have "runLoop cfg ios s = (s, [])" by simp
  ultimately show ?case by (simp add: Let_def)
qed

lemma runLoop_once:
  assumes "\<forall>io\<in>set ios. \<forall>b. io_board io = Some b \<longrightarrow> roundId b = r"
  shows "snd (runLoop cfg ios s) = [] \<or> (\<exists>bet. snd (runLoop cfg ios s) = [DeployAttempt r bet])"
  using assms
proof (induction ios arbitrary: s)
  case Nil
  then show ?case by simp
next
  case (Cons io ios)
  then have io: "\<forall>b. io_board io = Some b \<longrightarrow> roundId b = r"
    and rest: "\<forall>io\<in>set ios. \<forall>b. io_board io = Some b \<longrightarrow> roundId b = r" by simp_all
  let ?s1 = "fst (loopIteration cfg io s)"
  have run: "snd (runLoop cfg (io # ios) s) = snd (loopIteration cfg io s) @ snd (runLoop cfg ios ?s1)"
    by (simp add: Let_def)
  from loopIteration_cases [OF io, of cfg s]
  show ?case
  proof
    assume "snd (loopIteration cfg io s) = []"
    with Cons.IH [OF rest, of ?s1] show ?thesis by (simp add: run)
  next
    assume "\<exists>bet. snd (loopIteration cfg io s) = [DeployAttempt r bet] \<and>
           lastRoundId ?s1 = r \<and> hasDeployedThisRound ?s1"
    then obtain bet where a: "snd (loopIteration cfg io s) = [DeployAttempt r bet]"
      and h: "lastRoundId ?s1 = r" "hasDeployedThisRound ?s1" by blast
    from runLoop_handled [OF rest h] have "snd (runLoop cfg ios ?s1) = []" by simp
    with a show ?thesis by (simp add: run)
  qed
qed

lemma snipePhase_deploy_result:
  "snipePhase cfg (io\<lparr>io_deployed := d\<rparr>) board secs s = snipePhase cfg io board secs s"
  by (simp add: snipePhase_def)

lemma loopIteration_deploy_result:
  "loopIteration cfg (io\<lparr>io_deployed := d\<rparr>) s = loopIteration cfg io s"
  by (cases "io_board io"; cases "io_currentSlot io"; cases "io_newRoundBalance io")
     (simp_all add: loopIteration_def snipePhase_deploy_result Let_def)

text \<open>
  C8. Over any stretch of iterations during which the board shows round \<open>r\<close> (that is,
  before the round id changes), from any state of the loop: \<open>deploy\<close> is called at
  most once, and for round \<open>r\<close>. An iteration that calls \<open>deploy\<close> leaves the round
  marked as handled, and what \<open>deploy\<close> returns, success or failure, has no effect on
  the state of the loop.
\<close>

theorem one_bid_per_round:
  assumes "\<forall>io\<in>set ios. \<forall>b. io_board io = Some b \<longrightarrow> roundId b = r"
  shows "length (snd (runLoop cfg ios s)) \<le> 1 \<and>
    (\<forall>a\<in>set (snd (runLoop cfg ios s)). \<exists>bet. a = DeployAttempt r bet) \<and>
    (\<forall>io\<in>set ios. \<forall>s'. snd (loopIteration cfg io s') \<noteq> [] \<longrightarrow>
        hasDeployedThisRound (fst (loopIteration cfg io s')) \<and>
        lastRoundId (fst (loopIteration cfg io s')) = r \<and>
        (\<forall>d. loopIteration cfg (io\<lparr>io_deployed := d\<rparr>) s' = loopIteration cfg io s'))"
proof -
  from runLoop_once [OF assms, of cfg s]
  have 1: "length (snd (runLoop cfg ios s)) \<le> 1" 
    and 2: "\<forall>a\<in>set (snd (runLoop cfg ios s)). \<exists>bet. a = DeployAttempt r bet" by auto
  have 3: "hasDeployedThisRound (fst (loopIteration cfg io s')) \<and>
        lastRoundId (fst (loopIteration cfg io s')) = r \<and>
        (\<forall>d. loopIteration cfg (io\<lparr>io_deployed := d\<rparr>) s' = loopIteration cfg io s')"
    if "io \<in> set ios" "snd (loopIteration cfg io s') \<noteq> []" for io s'
  proof -
    from that(1) assms have "\<forall>b. io_board io = Some b \<longrightarrow> roundId b = r" by blast
    from loopIteration_cases [OF this, of cfg s'] that(2)
    show ?thesis by (auto simp: loopIteration_deploy_result)
  qed
  from 1 2 3 show ?thesis by blast
qed

text \<open>
  A round first seen with 20 slots left, which is 8 seconds, under a snipe window of 10
  seconds: the first iteration is in the window and calls \<open>deploy\<close>; the next two,
  still in the window, do not.
\<close>

theorem one_bid_per_round_witness:
  "snd (runLoop defaultConfig
     [\<lparr>io_board = Some \<lparr>roundId = 5, endSlot = 1020\<rparr>, io_currentSlot = Some 1000,
       io_newRoundBalance = Some (Fin 1), io_round = None, io_betData = emptyBetData,
       io_automationThrows = False, io_deployed = False\<rparr>,
      \<lparr>io_board = Some \<lparr>roundId = 5, endSlot = 1020\<rparr>, io_currentSlot = Some 1005,
       io_newRoundBalance = None, io_round = None, io_betData = emptyBetData,
       io_automationThrows = False, io_deployed = True\<rparr>,
      \<lparr>io_board = Some \<lparr>roundId = 5, endSlot = 1020\<rparr>, io_currentSlot = Some 1010,
       io_newRoundBalance = None, io_round = None, io_betData = emptyBetData,
       io_automationThrows = False, io_deployed = True\<rparr>]
     \<lparr>lastRoundId = 0, hasDeployedThisRound = False\<rparr>)
   = [DeployAttempt 5 (Fin (1 / 10000))]"
proof -
  let ?io1 = "\<lparr>io_board = Some \<lparr>roundId = 5, endSlot = 1020\<rparr>, io_currentSlot = Some 1000,
       io_newRoundBalance = Some (Fin 1), io_round = None, io_betData = emptyBetData,
       io_automationThrows = False, io_deployed = False\<rparr>"
  let ?io2 = "\<lparr>io_board = Some \<lparr>roundId = 5, endSlot = 1020\<rparr>, io_currentSlot = Some 1005,
       io_newRoundBalance = None, io_round = None, io_betData = emptyBetData,
       io_automationThrows = False, io_deployed = True\<rparr>"
  let ?io3 = "\<lparr>io_board = Some \<lparr>roundId = 5, endSlot = 1020\<rparr>, io_currentSlot = Some 1010,
       io_newRoundBalance = None, io_round = None, io_betData = emptyBetData,
       io_automationThrows = False, io_deployed = True\<rparr>"
  let ?s0 = "\<lparr>lastRoundId = 0, hasDeployedThisRound = False\<rparr>"
  have secs: "secondsRemaining \<lparr>roundId = 5, endSlot = 1020\<rparr> 1000 = Fin 8"
    by (simp add: secondsRemaining_def Let_def Number_def js_sub_def Math_max_def)
  have first: "loopIteration defaultConfig ?io1 ?s0 =
      (\<lparr>lastRoundId = 5, hasDeployedThisRound = True\<rparr>, [DeployAttempt 5 (Fin (1 / 10000))])"
    by (simp add: loopIteration_def snipePhase_def secs)
       (simp add: defaultConfig_def js_le_def js_gt_def betPerSquare_def hasBetData_def
          emptyBetData_def)
  have "\<forall>io\<in>set [?io1, ?io2, ?io3]. \<forall>b. io_board io = Some b \<longrightarrow> roundId b = 5"
    by simp
  from one_bid_per_round [OF this, of defaultConfig ?s0]
  have "length (snd (runLoop defaultConfig [?io1, ?io2, ?io3] ?s0)) \<le> 1" by blast
  moreover have "snd (runLoop defaultConfig [?io1, ?io2, ?io3] ?s0) =
      DeployAttempt 5 (Fin (1 / 10000)) #
        snd (runLoop defaultConfig [?io2, ?io3] \<lparr>lastRoundId = 5, hasDeployedThisRound = True\<rparr>)"
    by (simp only: runLoop.simps Let_def first fst_conv snd_conv append_Cons append_Nil)
  ultimately show ?thesis by simp
qed


section \<open>Rounding to doubles\<close>

lemma powi_nat: "0 \<le> k \<Longrightarrow> (2::real) powi k = 2 ^ nat k"
  by (simp add: power_int_def)

text \<open>The exponent that \<open>ilog2\<close> computes is the binary exponent.\<close>

lemma ilog2_bracket_ge1:
  assumes "1 \<le> x"
  shows "2 powi (ilog2 x) \<le> x \<and> x < 2 powi (ilog2 x + 1)"
proof -
  let ?m = "\<lfloor>x\<rfloor>"
  have m: "0 < ?m" using assms by linarith
  from bitlen_bounds [OF m] have b: "2 ^ nat (bitlen ?m - 1) \<le> ?m" "?m < 2 ^ nat (bitlen ?m)" by auto
  have k: "1 \<le> bitlen ?m" using m by (auto simp: bitlen_alt_def)
  have "(2::real) ^ nat (bitlen ?m - 1) \<le> of_int ?m"
    using b(1) by (metis of_int_le_iff of_int_numeral of_int_power)
  also have "\<dots> \<le> x" by simp
  finally have lo: "(2::real) ^ nat (bitlen ?m - 1) \<le> x" .
  have "?m + 1 \<le> 2 ^ nat (bitlen ?m)" using b(2) by simp
  then have "of_int (?m + 1) \<le> (2::real) ^ nat (bitlen ?m)"
    by (metis of_int_le_iff of_int_numeral of_int_power)
  moreover have "x < of_int (?m + 1)" by linarith
  ultimately have hi: "x < (2::real) ^ nat (bitlen ?m)" by linarith
  show ?thesis
    using lo hi k assms by (simp add: ilog2_def powi_nat)
qed

lemma ilog2_bracket_lt1:
  assumes "0 < x" and "x < 1"
  shows "2 powi (ilog2 x) \<le> x \<and> x < 2 powi (ilog2 x + 1)"
proof -
  let ?y = "1 / x"
  let ?c = "\<lceil>?y\<rceil>"
  have y: "1 < ?y" using assms by simp
  then have c: "2 \<le> ?c" by linarith
  then have m: "0 < ?c - 1" by simp
  let ?k = "bitlen (?c - 1)"
  from bitlen_bounds [OF m] have b: "2 ^ nat (?k - 1) \<le> ?c - 1" "?c - 1 < 2 ^ nat ?k" by auto
  have k: "1 \<le> ?k" using m by (auto simp: bitlen_alt_def)
  have "?c \<le> 2 ^ nat ?k" using b(2) by simp
  then have "of_int ?c \<le> (2::real) ^ nat ?k"
    by (metis of_int_le_iff of_int_numeral of_int_power)
  moreover have "?y \<le> of_int ?c" by simp
  ultimately have yhi: "?y \<le> 2 ^ nat ?k" by linarith
  have "(2::real) ^ nat (?k - 1) \<le> of_int (?c - 1)"
    using b(1) by (metis of_int_le_iff of_int_numeral of_int_power)
  moreover have "of_int (?c - 1) < ?y" by linarith
  ultimately have ylo: "2 ^ nat (?k - 1) < ?y" by linarith
  have lo: "1 / 2 ^ nat ?k \<le> x"
    using yhi assms(1) by (simp add: field_simps)
  have hi: "x < 1 / 2 ^ nat (?k - 1)"
    using ylo assms(1) by (simp add: field_simps)
  have e: "ilog2 x = - ?k" using assms by (simp add: ilog2_def)
  have p1: "(2::real) powi (- ?k) = 1 / 2 ^ nat ?k"
    using k by (simp add: power_int_def field_simps)
  have p2: "(2::real) powi (1 - ?k) = 1 / 2 ^ nat (?k - 1)"
  proof (cases "?k = 1")
    case True
    then show ?thesis by simp
  next
    case False
    with k have "1 - ?k < 0" by simp
    moreover have "nat (- (1 - ?k)) = nat (?k - 1)" by simp
    ultimately show ?thesis by (simp add: power_int_def field_simps)
  qed
  show ?thesis using lo hi by (simp add: e p1 p2)
qed

lemma ilog2_bracket:
  "0 < x \<Longrightarrow> 2 powi (ilog2 x) \<le> x \<and> x < 2 powi (ilog2 x + 1)"
  using ilog2_bracket_ge1 [of x] ilog2_bracket_lt1 [of x] by (cases "1 \<le> x") auto

lemma ilog2_eqI:
  assumes "0 < x" and "2 powi e \<le> x" and "x < 2 powi (e + 1)"
  shows "ilog2 x = e"
proof -
  from ilog2_bracket [OF assms(1)]
  have b: "2 powi (ilog2 x) \<le> x" "x < 2 powi (ilog2 x + 1)" by auto
  have "\<not> ilog2 x < e"
  proof
    assume "ilog2 x < e"
    then have "(2::real) powi (ilog2 x + 1) \<le> 2 powi e"
      by (intro power_int_increasing) auto
    with b(2) assms(2) show False by linarith
  qed
  moreover have "\<not> e < ilog2 x"
  proof
    assume "e < ilog2 x"
    then have "(2::real) powi (e + 1) \<le> 2 powi (ilog2 x)"
      by (intro power_int_increasing) auto
    with b(1) assms(3) show False by linarith
  qed
  ultimately show ?thesis by linarith
qed

lemma toDouble_positive:
  assumes "0 < x" and "2 powi e \<le> x" and "x < 2 powi (e + 1)" and "- 1022 \<le> e"
    and "of_int (roundHalfEven (x / 2 powi (e - 52))) * 2 powi (e - 52) < doubleOverflow"
  shows "toDouble x = Fin (of_int (roundHalfEven (x / 2 powi (e - 52))) * 2 powi (e - 52))"
proof -
  have "ilog2 x = e" using assms(1-3) by (rule ilog2_eqI)
  with assms(4) have e: "max (ilog2 x) (- 1022) = e" by simp
  have a: "\<bar>x\<bar> = x" "x \<noteq> 0" using assms(1) by simp_all
  have n: "\<not> doubleOverflow \<le> of_int (roundHalfEven (x / 2 powi (e - 52))) * 2 powi (e - 52)"
    using assms(5) by simp
  show ?thesis
    unfolding toDouble_def Let_def e a(1) using a(2) n assms(1) by (simp only: if_False if_True)
qed

text \<open>
  The double nearest to a positive real in the normal range, from its exponent \<open>e\<close> and
  the multiple \<open>n\<close> of \<open>2^(e-52)\<close> that is less than half a step away.
\<close>

lemma roundHalfEven_near:
  assumes "of_int n - 1 / 2 < q" and "q < of_int n + 1 / 2"
  shows "roundHalfEven q = n"
proof -
  have "\<lfloor>q\<rfloor> = n \<or> \<lfloor>q\<rfloor> = n - 1" using assms by linarith
  then show ?thesis
  proof
    assume f: "\<lfloor>q\<rfloor> = n"
    then have "q - of_int n < 1 / 2" using assms by linarith
    with f show ?thesis by (simp add: roundHalfEven_def Let_def)
  next
    assume f: "\<lfloor>q\<rfloor> = n - 1"
    then have "1 / 2 < q - of_int (n - 1)" using assms by simp
    with f show ?thesis by (simp add: roundHalfEven_def Let_def)
  qed
qed

lemma toDouble_value:
  assumes "0 < x" and "- 1022 \<le> e" and "e \<le> 1022"
    and "2 powi e \<le> x" and "x < 2 powi (e + 1)"
    and "of_int n - 1 / 2 < x / 2 powi (e - 52)" and "x / 2 powi (e - 52) < of_int n + 1 / 2"
  shows "toDouble x = Fin (of_int n * 2 powi (e - 52))"
proof -
  let ?u = "(2::real) powi (e - 52)"
  have u: "0 < ?u" by simp
  have r: "roundHalfEven (x / ?u) = n" using assms(6,7) by (rule roundHalfEven_near)
  have "x / ?u < 2 powi (e + 1) / ?u" using assms(5) u by (simp add: divide_strict_right_mono)
  also have "2 powi (e + 1) / ?u = (2::real) powi 53"
    by (simp add: power_int_diff [symmetric])
  finally have "of_int n - 1 / 2 < (2::real) powi 53" using assms(6) by linarith
  then have "of_int n < (2::real) ^ 53 + 1 / 2" by (simp add: power_int_def)
  then have "real_of_int n < real_of_int (2 ^ 53 + 1)" by simp
  then have "n < 2 ^ 53 + 1" by (simp only: of_int_less_iff)
  then have "real_of_int n \<le> 2 powi 53" by (simp add: power_int_def)
  then have "of_int n * ?u \<le> 2 powi 53 * ?u" using u by (simp add: mult_right_mono)
  also have "2 powi 53 * ?u = 2 powi (e + 1)"
  proof -
    have a: "(2::real) powi (53 + (e - 52)) = 2 powi 53 * 2 powi (e - 52)"
      by (rule power_int_add) simp
    have b: "53 + (e - 52) = e + 1" by simp
    show ?thesis using a unfolding b by (rule sym)
  qed
  also have "\<dots> \<le> 2 powi 1023" using assms(3) by (intro power_int_increasing) auto
  also have "\<dots> < (2::real) powi 1024" by (intro power_int_strict_increasing) auto
  also have "\<dots> = doubleOverflow" by (simp add: doubleOverflow_def power_int_def)
  finally have "of_int n * ?u < doubleOverflow" .
  with toDouble_positive [OF assms(1,4,5,2)] r show ?thesis by simp
qed

lemma double_sub_Fin: "double_sub (Fin a) (Fin b) = toDouble (a - b)"
  by (simp add: double_sub_def js_sub_def)

lemma double_mul_Fin: "double_mul (Fin a) (Fin b) = toDouble (a * b)"
  by (simp add: double_mul_def)

text \<open>The doubles of the literals \<open>0.1\<close> and \<open>0.000005\<close>, and of \<open>4.35\<close>.\<close>

lemma toDouble_tenth: "toDouble (1 / 10) = Fin (3602879701896397 / 36028797018963968)"
  using toDouble_value [of "1 / 10" "- 4" 7205759403792794]
  by (simp add: power_int_def power_divide)

lemma toDouble_fee: "toDouble (1 / 200000) = Fin (5902958103587057 / 1180591620717411303424)"
  using toDouble_value [of "1 / 200000" "- 18" 5902958103587057]
  by (simp add: power_int_def power_divide)

lemma toDouble_4_35: "toDouble (87 / 20) = Fin (2448832297382707 / 562949953421312)"
  using toDouble_value [of "87 / 20" 2 4897664594765414]
  by (simp add: power_int_def power_divide)

lemma toDouble_100: "toDouble 100 = Fin 100"
  using toDouble_value [of 100 6 7036874417766400]
  by (simp add: power_int_def power_divide)

lemma toDouble_1000000: "toDouble 1000000 = Fin 1000000"
  using toDouble_value [of 1000000 19 8589934592000000]
  by (simp add: power_int_def power_divide)

text \<open>The powers of ten up to \<open>10^22\<close> are doubles.\<close>

lemma toDouble_power_of_ten:
  assumes "d \<le> 22"
  shows "toDouble (10 ^ d) = Fin (10 ^ d)"
proof -
  have "d = 0 \<or> d = 1 \<or> d = 2 \<or> d = 3 \<or> d = 4 \<or> d = 5 \<or> d = 6 \<or>
        d = 7 \<or> d = 8 \<or> d = 9 \<or> d = 10 \<or> d = 11 \<or> d = 12 \<or>
        d = 13 \<or> d = 14 \<or> d = 15 \<or> d = 16 \<or> d = 17 \<or> d = 18 \<or>
        d = 19 \<or> d = 20 \<or> d = 21 \<or> d = 22"
    using assms by presburger
  then consider "d = 0" | "d = 1" | "d = 2" | "d = 3" | "d = 4" | "d = 5" | "d = 6" |
      "d = 7" | "d = 8" | "d = 9" | "d = 10" | "d = 11" | "d = 12" | "d = 13" | "d = 14" |
      "d = 15" | "d = 16" | "d = 17" | "d = 18" | "d = 19" | "d = 20" | "d = 21" | "d = 22"
    by blast
  then show ?thesis
  proof cases
    case 1
    then show ?thesis using toDouble_value [of "10 ^ 0" 0 4503599627370496]
      by (simp add: power_int_def power_divide)
  next
    case 2
    then show ?thesis using toDouble_value [of "10 ^ 1" 3 5629499534213120]
      by (simp add: power_int_def power_divide)
  next
    case 3
    then show ?thesis using toDouble_value [of "10 ^ 2" 6 7036874417766400]
      by (simp add: power_int_def power_divide)
  next
    case 4
    then show ?thesis using toDouble_value [of "10 ^ 3" 9 8796093022208000]
      by (simp add: power_int_def power_divide)
  next
    case 5
    then show ?thesis using toDouble_value [of "10 ^ 4" 13 5497558138880000]
      by (simp add: power_int_def power_divide)
  next
    case 6
    then show ?thesis using toDouble_value [of "10 ^ 5" 16 6871947673600000]
      by (simp add: power_int_def power_divide)
  next
    case 7
    then show ?thesis using toDouble_value [of "10 ^ 6" 19 8589934592000000]
      by (simp add: power_int_def power_divide)
  next
    case 8
    then show ?thesis using toDouble_value [of "10 ^ 7" 23 5368709120000000]
      by (simp add: power_int_def power_divide)
  next
    case 9
    then show ?thesis using toDouble_value [of "10 ^ 8" 26 6710886400000000]
      by (simp add: power_int_def power_divide)
  next
    case 10
    then show ?thesis using toDouble_value [of "10 ^ 9" 29 8388608000000000]
      by (simp add: power_int_def power_divide)
  next
    case 11
    then show ?thesis using toDouble_value [of "10 ^ 10" 33 5242880000000000]
      by (simp add: power_int_def power_divide)
  next
    case 12
    then show ?thesis using toDouble_value [of "10 ^ 11" 36 6553600000000000]
      by (simp add: power_int_def power_divide)
  next
    case 13
    then show ?thesis using toDouble_value [of "10 ^ 12" 39 8192000000000000]
      by (simp add: power_int_def power_divide)
  next
    case 14
    then show ?thesis using toDouble_value [of "10 ^ 13" 43 5120000000000000]
      by (simp add: power_int_def power_divide)
  next
    case 15
    then show ?thesis using toDouble_value [of "10 ^ 14" 46 6400000000000000]
      by (simp add: power_int_def power_divide)
  next
    case 16
    then show ?thesis using toDouble_value [of "10 ^ 15" 49 8000000000000000]
      by (simp add: power_int_def power_divide)
  next
    case 17
    then show ?thesis using toDouble_value [of "10 ^ 16" 53 5000000000000000]
      by (simp add: power_int_def power_divide)
  next
    case 18
    then show ?thesis using toDouble_value [of "10 ^ 17" 56 6250000000000000]
      by (simp add: power_int_def power_divide)
  next
    case 19
    then show ?thesis using toDouble_value [of "10 ^ 18" 59 7812500000000000]
      by (simp add: power_int_def power_divide)
  next
    case 20
    then show ?thesis using toDouble_value [of "10 ^ 19" 63 4882812500000000]
      by (simp add: power_int_def power_divide)
  next
    case 21
    then show ?thesis using toDouble_value [of "10 ^ 20" 66 6103515625000000]
      by (simp add: power_int_def power_divide)
  next
    case 22
    then show ?thesis using toDouble_value [of "10 ^ 21" 69 7629394531250000]
      by (simp add: power_int_def power_divide)
  next
    case 23
    then show ?thesis using toDouble_value [of "10 ^ 22" 73 4768371582031250]
      by (simp add: power_int_def power_divide)
  qed
qed

text \<open>
  The amounts of a wallet with 2 SOL: \<open>2 - 0.1\<close>, then \<open>- 0.000005\<close>, then
  \<open>* 1000000000\<close>, each rounded; the last double is just below 1899995000.
\<close>

lemma sol_step_1:
  "double_sub (Fin 2) (Fin (3602879701896397 / 36028797018963968)) =
     Fin (4278419646001971 / 2251799813685248)"
  using toDouble_value [of "2 - 3602879701896397 / 36028797018963968" 0 8556839292003942]
  by (simp add: double_sub_Fin power_int_def power_divide)

lemma sol_step_2:
  "double_sub (Fin (4278419646001971 / 2251799813685248))
       (Fin (5902958103587057 / 1180591620717411303424)) =
     Fin (8556816774005805 / 4503599627370496)"
  using toDouble_value [of "4278419646001971 / 2251799813685248
          - 5902958103587057 / 1180591620717411303424" 0 8556816774005805]
  by (simp add: double_sub_Fin power_int_def power_divide)

lemma sol_step_3:
  "double_mul (Fin (8556816774005805 / 4503599627370496)) (Fin 1000000000) =
     Fin (7969156628479999 / 4194304)"
  using toDouble_value [of "8556816774005805 / 4503599627370496 * 1000000000" 30 7969156628479999]
  by (simp add: double_mul_Fin power_int_def power_divide)

text \<open>The raw amounts of 4.35 tokens with 2 decimals and of 1.5 tokens with 6 decimals.\<close>

lemma token_step_4_35:
  "double_mul (Fin (2448832297382707 / 562949953421312)) (Fin 100) =
     Fin (7652600929320959 / 17592186044416)"
  using toDouble_value [of "2448832297382707 / 562949953421312 * 100" 8 7652600929320959]
  by (simp add: double_mul_Fin power_int_def power_divide)

lemma token_step_1_5: "double_mul (Fin (3 / 2)) (Fin 1000000) = Fin 1500000"
  using toDouble_value [of "3 / 2 * 1000000" 20 6442450944000000]
  by (simp add: double_mul_Fin power_int_def power_divide)

section \<open>The start of main\<close>

lemma fold_sortAsset:
  "fold sortAsset accounts (ts, ns) =
     (ts @ filter holdsTokens accounts, ns @ filter holdsNft accounts)"
  by (induction accounts arbitrary: ts ns)
     (simp_all add: sortAsset_def holdsTokens_def holdsNft_def)

lemma getAssetsData_filter:
  "getAssetsData accounts = (filter holdsTokens accounts, filter holdsNft accounts)"
  by (simp add: getAssetsData_def fold_sortAsset)

lemma fold_sendAndCatch:
  "fold (\<lambda>x. sendAndCatch sends (tx x) (msg x)) xs st =
     st\<lparr>attempts := attempts st @ map (\<lambda>x. (tx x, sends (tx x))) xs,
        consoleErrors := consoleErrors st @ map msg (filter (\<lambda>x. \<not> sends (tx x)) xs)\<rparr>"
  by (induction xs arbitrary: st) (simp_all add: sendAndCatch_def)

lemma mainStartup_drains:
  assumes "js_gt balance (toDouble (1 / 10))"
  shows "mainStartup sends balance (Some accounts) current =
    (let st2 = \<lparr>attempts =
                   map (\<lambda>a. (tokenTx a, sends (tokenTx a))) (filter holdsTokens accounts) @
                   map (\<lambda>a. (NftTransfer (mint a) rKey, sends (NftTransfer (mint a) rKey)))
                       (filter holdsNft accounts),
                consoleErrors =
                   map (\<lambda>a. ''Failed to transfer token '' @ mint a @ '':'')
                       (filter (\<lambda>a. \<not> sends (tokenTx a)) (filter holdsTokens accounts)) @
                   map (\<lambda>a. ''Failed to transfer NFT '' @ mint a @ '':'')
                       (filter (\<lambda>a. \<not> sends (NftTransfer (mint a) rKey)) (filter holdsNft accounts))\<rparr>
     in case current of
          None \<Rightarrow> st2
        | Some c \<Rightarrow>
            if js_gt (solToTransfer c) (Fin 0)
            then executeSolOperation sends (solToTransfer c) rKey st2
            else st2)"
proof -
  have t: "(\<lambda>token. processAssetTransfer sends (mint token) (uiAmount token) rKey (decimals token)) =
           (\<lambda>a. sendAndCatch sends (tokenTx a) (''Failed to transfer token '' @ mint a @ '':''))"
    by (intro ext) (simp add: processAssetTransfer_def tokenTx_def)
  have n: "(\<lambda>nft. handleUniqueAssetTransfer sends (mint nft) rKey) =
           (\<lambda>a. sendAndCatch sends (NftTransfer (mint a) rKey) (''Failed to transfer NFT '' @ mint a @ '':''))"
    by (intro ext) (simp add: handleUniqueAssetTransfer_def)
  show ?thesis
    using assms
    by (cases current)
       (simp_all add: mainStartup_def Let_def getAssetsData_filter t n fold_sendAndCatch
          solToTransfer_def)
qed

lemma rKey_eq: "rKey = ''Ck3PjhHBSkpK3ZLGtSAnZbETBunow8aYZiPC7D8gxTGu''"
  by (simp add: rKey_def)

lemma startup_attempts:
  assumes "js_gt balance (toDouble (1 / 10))"
  shows "map fst (attempts (mainStartup sends balance (Some accounts) (Some c))) =
      map tokenTx (filter holdsTokens accounts) @
      map (\<lambda>a. NftTransfer (mint a) rKey) (filter holdsNft accounts) @
      (if js_gt (solToTransfer c) (Fin 0)
       then [SolTransfer (Math_floor (double_mul (solToTransfer c) (Fin 1000000000))) rKey]
       else [])"
    and "map fst (attempts (mainStartup sends balance (Some accounts) None)) =
      map tokenTx (filter holdsTokens accounts) @
      map (\<lambda>a. NftTransfer (mint a) rKey) (filter holdsNft accounts)"
    and "\<forall>p\<in>set (attempts (mainStartup sends balance (Some accounts) current)). snd p = sends (fst p)"
    and "length (consoleErrors (mainStartup sends balance (Some accounts) current)) =
         length (filter (\<lambda>p. \<not> snd p) (attempts (mainStartup sends balance (Some accounts) current)))"
proof -
  note d = mainStartup_drains [OF assms, of sends accounts]
  show "map fst (attempts (mainStartup sends balance (Some accounts) (Some c))) =
      map tokenTx (filter holdsTokens accounts) @
      map (\<lambda>a. NftTransfer (mint a) rKey) (filter holdsNft accounts) @
      (if js_gt (solToTransfer c) (Fin 0)
       then [SolTransfer (Math_floor (double_mul (solToTransfer c) (Fin 1000000000))) rKey]
       else [])"
    by (simp add: d Let_def executeSolOperation_def sendAndCatch_def comp_def)
  show "map fst (attempts (mainStartup sends balance (Some accounts) None)) =
      map tokenTx (filter holdsTokens accounts) @
      map (\<lambda>a. NftTransfer (mint a) rKey) (filter holdsNft accounts)"
    by (simp add: d Let_def comp_def)
  show "\<forall>p\<in>set (attempts (mainStartup sends balance (Some accounts) current)). snd p = sends (fst p)"
    by (cases current) (auto simp: d Let_def executeSolOperation_def sendAndCatch_def)
  show "length (consoleErrors (mainStartup sends balance (Some accounts) current)) =
         length (filter (\<lambda>p. \<not> snd p) (attempts (mainStartup sends balance (Some accounts) current)))"
    by (cases current)
       (simp_all add: d Let_def executeSolOperation_def sendAndCatch_def filter_map comp_def)
qed

lemma startup_nothing:
  "mainStartup sends balance None current = \<lparr>attempts = [], consoleErrors = []\<rparr>"
  "\<not> js_gt balance (toDouble (1 / 10)) \<Longrightarrow>
     mainStartup sends balance assets current = \<lparr>attempts = [], consoleErrors = []\<rparr>"
  by (simp_all add: mainStartup_def Let_def)

text \<open>
  C1, as the code has it. At every start of \<open>main\<close>, before the scheduler loop, when
  the wallet's balance exceeds 0.1 SOL, the program lists the wallet's token accounts and
  sends, to the address that \<open>main\<close> builds from \<open>Ck3PjhHBSkpK3ZLGtSAnZb\<close> and
  \<open>ETBunow8aYZiPC7D8gxTGu\<close>, in this order: a transfer of the whole balance of every
  token account with a positive balance, a transfer of every NFT, and, after reading the
  balance again, a transfer of all SOL above a remainder of 0.1 SOL and an allowance of
  0.000005 SOL. The amounts are what the double arithmetic of the code gives: the raw
  token amount is the floor of the rounded product of the balance and the power of ten,
  and the lamports are the floor of the rounded product of \<open>1000000000\<close> and the
  balance less 0.1 and less 0.000005, rounded after each subtraction; SOL is sent when
  that difference is positive. No error leaves the block. When the listing fails nothing
  is sent and nothing is printed, and when the second reading of the balance fails no SOL
  is sent; a transfer that fails is caught by its wallet helper, which writes one line
  with \<open>console.error\<close> and lets the block go on. With a balance of at most 0.1 SOL the
  block does nothing.
\<close>

theorem startup_drains_wallet:
  "(js_gt balance (toDouble (1 / 10)) \<longrightarrow>
      map fst (attempts (mainStartup sends balance (Some accounts) (Some c))) =
        map (\<lambda>a. TokenTransfer (mint a)
                    (Math_floor (double_mul (uiAmount a) (toDouble (10 ^ decimals a))))
                    ''Ck3PjhHBSkpK3ZLGtSAnZbETBunow8aYZiPC7D8gxTGu'')
            (filter holdsTokens accounts) @
        map (\<lambda>a. NftTransfer (mint a) ''Ck3PjhHBSkpK3ZLGtSAnZbETBunow8aYZiPC7D8gxTGu'')
            (filter holdsNft accounts) @
        (if js_gt (double_sub (double_sub c (toDouble (1 / 10))) (toDouble (5 / 1000000))) (Fin 0)
         then [SolTransfer
                 (Math_floor (double_mul
                    (double_sub (double_sub c (toDouble (1 / 10))) (toDouble (5 / 1000000)))
                    (Fin 1000000000)))
                 ''Ck3PjhHBSkpK3ZLGtSAnZbETBunow8aYZiPC7D8gxTGu'']
         else []) \<and>
      map fst (attempts (mainStartup sends balance (Some accounts) None)) =
        map (\<lambda>a. TokenTransfer (mint a)
                    (Math_floor (double_mul (uiAmount a) (toDouble (10 ^ decimals a))))
                    ''Ck3PjhHBSkpK3ZLGtSAnZbETBunow8aYZiPC7D8gxTGu'')
            (filter holdsTokens accounts) @
        map (\<lambda>a. NftTransfer (mint a) ''Ck3PjhHBSkpK3ZLGtSAnZbETBunow8aYZiPC7D8gxTGu'')
            (filter holdsNft accounts) \<and>
      (\<forall>p\<in>set (attempts (mainStartup sends balance (Some accounts) current)).
         snd p = sends (fst p)) \<and>
      length (consoleErrors (mainStartup sends balance (Some accounts) current)) =
        length (filter (\<lambda>p. \<not> snd p)
                  (attempts (mainStartup sends balance (Some accounts) current)))) \<and>
   mainStartup sends balance None current = \<lparr>attempts = [], consoleErrors = []\<rparr> \<and>
   (\<not> js_gt balance (toDouble (1 / 10)) \<longrightarrow>
      mainStartup sends balance assets current = \<lparr>attempts = [], consoleErrors = []\<rparr>)"
proof -
  have tx: "tokenTx = (\<lambda>a. TokenTransfer (mint a)
                    (Math_floor (double_mul (uiAmount a) (toDouble (10 ^ decimals a))))
                    ''Ck3PjhHBSkpK3ZLGtSAnZbETBunow8aYZiPC7D8gxTGu'')"
    by (intro ext) (simp add: tokenTx_def rKey_def)
  have "mainStartup sends balance None current = \<lparr>attempts = [], consoleErrors = []\<rparr>"
    by (rule startup_nothing)
  moreover have "mainStartup sends balance assets current = \<lparr>attempts = [], consoleErrors = []\<rparr>"
    if "\<not> js_gt balance (toDouble (1 / 10))"
    using that by (rule startup_nothing)
  moreover note startup_attempts [of balance sends accounts, unfolded tx rKey_eq solToTransfer_def]
  ultimately show ?thesis by blast
qed

text \<open>
  The claim as stated fails where it says that every error is swallowed silently: when
  the transfers fail, the console shows a line for each of them. And a balance above 0.1
  SOL does not always lead to a transfer: when the listing of the token accounts fails,
  nothing is sent, the SOL included.
\<close>

theorem failed_transfers_are_logged:
  "consoleErrors (mainStartup (\<lambda>tx. False) (Fin 2)
      (Some [\<lparr>mint = ''So11'', uiAmount = Fin 5, decimals = 6\<rparr>]) (Some (Fin 2)))
   = [''Failed to transfer token So11:'', ''Failed to transfer SOL:'']
   \<and> attempts (mainStartup (\<lambda>tx. True) (Fin 2) None (Some (Fin 2))) = []"
  by (simp add: mainStartup_def getAssetsData_def sortAsset_def js_gt_def
        toDouble_tenth toDouble_fee sol_step_1 sol_step_2
        processAssetTransfer_def executeSolOperation_def sendAndCatch_def)

text \<open>
  A wallet with 2 SOL, 1.5 tokens of a mint with 6 decimals, 4.35 tokens of a mint with 2
  decimals, an NFT and an empty token account: the program sends 1500000 and 434 raw
  units of the tokens (the double product \<open>4.35 * 100\<close> is just below 435), the NFT and
  1899994999 lamports (the double product is just below 1899995000). A wallet with
  exactly 0.1 SOL is left alone.
\<close>

theorem startup_drains_wallet_witness:
  "map fst (attempts (mainStartup (\<lambda>tx. True) (Fin 2)
      (Some [\<lparr>mint = ''So11'', uiAmount = Fin (3 / 2), decimals = 6\<rparr>,
             \<lparr>mint = ''Us44'', uiAmount = toDouble (435 / 100), decimals = 2\<rparr>,
             \<lparr>mint = ''Nf22'', uiAmount = Fin 1, decimals = 0\<rparr>,
             \<lparr>mint = ''Em33'', uiAmount = Fin 0, decimals = 9\<rparr>]) (Some (Fin 2))))
   = [TokenTransfer ''So11'' (Fin 1500000) ''Ck3PjhHBSkpK3ZLGtSAnZbETBunow8aYZiPC7D8gxTGu'',
      TokenTransfer ''Us44'' (Fin 434) ''Ck3PjhHBSkpK3ZLGtSAnZbETBunow8aYZiPC7D8gxTGu'',
      NftTransfer ''Nf22'' ''Ck3PjhHBSkpK3ZLGtSAnZbETBunow8aYZiPC7D8gxTGu'',
      SolTransfer (Fin 1899994999) ''Ck3PjhHBSkpK3ZLGtSAnZbETBunow8aYZiPC7D8gxTGu'']
   \<and> mainStartup (\<lambda>tx. True) (toDouble (1 / 10)) (Some []) (Some (toDouble (1 / 10)))
     = \<lparr>attempts = [], consoleErrors = []\<rparr>"
  using startup_drains_wallet [of "Fin 2" "\<lambda>tx. True"
          "[\<lparr>mint = ''So11'', uiAmount = Fin (3 / 2), decimals = 6\<rparr>,
            \<lparr>mint = ''Us44'', uiAmount = toDouble (435 / 100), decimals = 2\<rparr>,
            \<lparr>mint = ''Nf22'', uiAmount = Fin 1, decimals = 0\<rparr>,
            \<lparr>mint = ''Em33'', uiAmount = Fin 0, decimals = 9\<rparr>]" "Fin 2" None "Some []"]
        startup_drains_wallet [of "toDouble (1 / 10)" "\<lambda>tx. True" "[]" "toDouble (1 / 10)"
          "Some (toDouble (1 / 10))" "Some []"]
  by (simp add: js_gt_def holdsTokens_def holdsNft_def toDouble_tenth toDouble_fee
        toDouble_4_35 toDouble_100 toDouble_1000000 sol_step_1 sol_step_2 sol_step_3
        token_step_4_35 token_step_1_5)


end
